theory Spec2Isabelle
  imports Main "HOL-Library.Word"
begin

unbundle bit_operations_syntax

section \<open>The peer close manager of src/bgp/bgp_peer_close.cc\<close>

text \<open>
  A shallow embedding of \<^verbatim>\<open>PeerCloseManager\<close>. The member variables of the class are
  a record that every member function takes and returns; an \<^verbatim>\<open>assert\<close> that fails is
  the value \<open>Inl AssertFailed\<close>. The calls the manager makes on its collaborators (the
  peer, the membership manager) are appended to the field \<open>calls\<close>, in program order; what
  the collaborators answer is read from the record \<open>Env\<close>, fixed for one event.
  The mutex and the log macro are left out: every handler runs to completion under the
  lock, and logging changes nothing.
\<close>

subsection \<open>Data\<close>

datatype State = NONE | STALE | GR_TIMER | LLGR_STALE | LLGR_TIMER | SWEEP | DELETE

text \<open>
  Modelled from the spec: the enumerator values of \<^verbatim>\<open>PeerCloseManager::State\<close> are
  declared in bgp_peer_close.h, which is not among the sources. The spec lists the
  enumeration in this order, \<open>NONE\<close> first; C++ numbers enumerators from 0.
\<close>

fun State_value :: "State \<Rightarrow> nat" where
  "State_value NONE = 0"
| "State_value STALE = 1"
| "State_value GR_TIMER = 2"
| "State_value LLGR_STALE = 3"
| "State_value LLGR_TIMER = 4"
| "State_value SWEEP = 5"
| "State_value DELETE = 6"

datatype MembershipState = MEMBERSHIP_NONE | MEMBERSHIP_IN_USE | MEMBERSHIP_IN_WAIT

text \<open>
  Modelled from the spec: \<^verbatim>\<open>Address::Family\<close> (net/address.h) is not among the sources.
  \<open>UNSPEC\<close> is the value the code compares with; the spec names ipv4-unicast and
  ipv6-unicast; every other family is \<open>OtherFamily n\<close>.
\<close>

datatype Family = UNSPEC | INET | INET6 | OtherFamily nat

datatype fault = AssertFailed | NullDeref

type_synonym int32 = "32 word"

type_synonym BgpTable = nat

text \<open>The calls out of the manager that change something outside it.\<close>

datatype Call =
    GracefulRestartStale
  | GracefulRestartSweep
  | CustomClose
  | PeerCloseComplete
  | PeerDelete
  | Unregister BgpTable
  | UnregisterRibOut BgpTable
  | UnregisterRibIn BgpTable
  | WalkRibIn BgpTable

text \<open>
  Modelled from the spec: the counters of \<^verbatim>\<open>stats_\<close> (their struct is declared in the
  header). They are only ever incremented; they are natural numbers here.
\<close>

record Stats =
  init :: nat
  close :: nat
  nested :: nat
  deletes :: nat
  stale :: nat
  llgr_stale :: nat
  sweep :: nat
  gr_timer :: nat
  llgr_timer :: nat

text \<open>
  Modelled from the spec: the class \<^verbatim>\<open>Timer\<close> is not among the sources. The spec
  describes a one-shot, cancellable timer. A timer is the list of delays (milliseconds,
  the \<^verbatim>\<open>int\<close> handed to \<^verbatim>\<open>Start\<close>) of the expiries that are pending: \<^verbatim>\<open>Start\<close>
  adds one, \<^verbatim>\<open>Cancel\<close> drops all of them. What \<^verbatim>\<open>GetElapsedTime\<close> returns depends on
  the clock and is an answer of the environment.
\<close>

type_synonym Timer = "int32 list"

definition Timer_Cancel :: "Timer \<Rightarrow> Timer" where
  "Timer_Cancel t = []"

definition Timer_Start :: "int32 \<Rightarrow> Timer \<Rightarrow> Timer" where
  "Timer_Start d t = t @ [d]"

text \<open>
  The member variables. Their declarations are in bgp_peer_close.h, which is not among
  the sources; the types are read off the constructor and the uses, and the two elapsed
  times are 32 bits wide as the spec has them (\<open>u32\<close>). A 32-bit word wraps around, so
  \<^verbatim>\<open>+=\<close> and the subtraction from an \<^verbatim>\<open>int\<close> are the same whether the header
  declares them signed or unsigned.
\<close>

record PeerCloseManager =
  stale_timer :: Timer
  sweep_timer :: Timer
  state :: State
  close_again :: bool
  non_graceful :: bool
  gr_elapsed :: int32
  llgr_elapsed :: int32
  membership_state :: MembershipState
  families :: "Family set"
  stats :: Stats
  calls :: "Call list"

text \<open>
  The membership manager as this peer sees it during one event: the tables the peer
  is registered to, how it is registered to each, and whether work for it is pending.
\<close>

record BgpMembershipManager =
  GetRegisteredRibs :: "BgpTable list"
  IsRegistered :: "BgpTable \<Rightarrow> bool"
  IsRibInRegistered :: "BgpTable \<Rightarrow> bool"
  IsPending :: bool

text \<open>
  The answers of the collaborators during one event (the interface \<^verbatim>\<open>IPeerClose\<close> is
  declared in a header that is not among the sources). The restart times are the
  numbers of seconds the code multiplies by 1000 into an \<^verbatim>\<open>int\<close>;
  \<open>GetGracefulRestartFamilies\<close> is the set the peer writes into \<^verbatim>\<open>families_\<close> (a
  snapshot that replaces the set, as the spec describes it); \<open>membership_mgr\<close> is \<open>None\<close>
  for a null handle; \<open>GetElapsedTime\<close> is what \<^verbatim>\<open>stale_timer_->GetElapsedTime()\<close>
  returns, cut to the 32 bits it is added to.
\<close>

record Env =
  IsCloseGraceful :: bool
  IsCloseLongLivedGraceful :: bool
  IsReady :: bool
  GetGracefulRestartTime :: int32
  GetLongLivedGracefulRestartTime :: int32
  GetGracefulRestartFamilies :: "Family set"
  CanUseMembershipManager :: bool
  membership_mgr :: "BgpMembershipManager option"
  GetElapsedTime :: int32

text \<open>
  The constructor: \<^verbatim>\<open>stats_.init++\<close> on zeroed counters, both timers created idle.
  (The one-argument constructor leaves the timers null when the peer has no server; the
  model is of a manager whose timers exist.) \<^verbatim>\<open>GetStateName\<close> serves the log and
  \<^verbatim>\<open>FillCloseInfo\<close> only reads; neither is modelled.
\<close>

definition PeerCloseManager_new :: PeerCloseManager where
  "PeerCloseManager_new =
     \<lparr> stale_timer = [], sweep_timer = [], state = NONE, close_again = False,
       non_graceful = False, gr_elapsed = 0, llgr_elapsed = 0,
       membership_state = MEMBERSHIP_NONE, families = {},
       stats = \<lparr> init = 1, close = 0, nested = 0, deletes = 0, stale = 0,
                 llgr_stale = 0, sweep = 0, gr_timer = 0, llgr_timer = 0 \<rparr>,
       calls = [] \<rparr>"

subsection \<open>Small steps\<close>

definition MOVE_TO_STATE :: "State \<Rightarrow> PeerCloseManager \<Rightarrow> fault + PeerCloseManager" where
  "MOVE_TO_STATE st s = (if state s \<noteq> st then Inr (s\<lparr>state := st\<rparr>) else Inl AssertFailed)"

definition do_call :: "Call \<Rightarrow> PeerCloseManager \<Rightarrow> PeerCloseManager" where
  "do_call c s = s\<lparr>calls := calls s @ [c]\<rparr>"

definition StartRestartTimer :: "int32 \<Rightarrow> PeerCloseManager \<Rightarrow> PeerCloseManager" where
  "StartRestartTimer time s =
     (let s1 = s\<lparr>stale_timer := Timer_Cancel (stale_timer s)\<rparr>
      in s1\<lparr>stale_timer := Timer_Start time (stale_timer s1)\<rparr>)"

definition TriggerSweepStateActions :: "PeerCloseManager \<Rightarrow> PeerCloseManager" where
  "TriggerSweepStateActions s =
     (let s1 = s\<lparr>sweep_timer := Timer_Cancel (sweep_timer s)\<rparr>
      in s1\<lparr>sweep_timer := Timer_Start 0 (sweep_timer s1)\<rparr>)"

definition ProcessEORMarkerReceived :: "Family \<Rightarrow> PeerCloseManager \<Rightarrow> PeerCloseManager" where
  "ProcessEORMarkerReceived family s =
     (if (state s = GR_TIMER \<or> state s = LLGR_TIMER) \<and> families s \<noteq> {} then
        (let s1 = (if family = UNSPEC then s\<lparr>families := {}\<rparr>
                   else s\<lparr>families := families s - {family}\<rparr>)
         in if families s1 = {} then StartRestartTimer 0 s1 else s1)
      else s)"

text \<open>The \<^verbatim>\<open>switch\<close> of \<^verbatim>\<open>ProcessClosure\<close>, up to the statements after it.\<close>

definition ProcessClosure_switch :: "Env \<Rightarrow> PeerCloseManager \<Rightarrow> fault + PeerCloseManager" where
  "ProcessClosure_switch env s =
     (case state s of
        NONE \<Rightarrow>
          if non_graceful s \<or> \<not> IsCloseGraceful env then
            (case MOVE_TO_STATE DELETE s of
               Inl e \<Rightarrow> Inl e
             | Inr s1 \<Rightarrow> Inr (s1\<lparr>stats := (stats s1)\<lparr>deletes := deletes (stats s1) + 1\<rparr>\<rparr>))
          else
            (case MOVE_TO_STATE STALE s of
               Inl e \<Rightarrow> Inl e
             | Inr s1 \<Rightarrow>
                 Inr (do_call GracefulRestartStale
                        (s1\<lparr>stats := (stats s1)\<lparr>stale := stale (stats s1) + 1\<rparr>\<rparr>)))
      | GR_TIMER \<Rightarrow>
          if IsReady env then
            (case MOVE_TO_STATE SWEEP s of
               Inl e \<Rightarrow> Inl e
             | Inr s1 \<Rightarrow>
                 Inr (s1\<lparr>gr_elapsed := 0, llgr_elapsed := 0,
                          stats := (stats s1)\<lparr>sweep := sweep (stats s1) + 1\<rparr>\<rparr>))
          else if IsCloseLongLivedGraceful env then
            (case MOVE_TO_STATE LLGR_STALE s of
               Inl e \<Rightarrow> Inl e
             | Inr s1 \<Rightarrow>
                 Inr (s1\<lparr>stats := (stats s1)\<lparr>llgr_stale := llgr_stale (stats s1) + 1\<rparr>\<rparr>))
          else
            (case MOVE_TO_STATE DELETE s of
               Inl e \<Rightarrow> Inl e
             | Inr s1 \<Rightarrow> Inr (s1\<lparr>stats := (stats s1)\<lparr>deletes := deletes (stats s1) + 1\<rparr>\<rparr>))
      | LLGR_TIMER \<Rightarrow>
          if IsReady env then
            (case MOVE_TO_STATE SWEEP s of
               Inl e \<Rightarrow> Inl e
             | Inr s1 \<Rightarrow>
                 Inr (s1\<lparr>gr_elapsed := 0, llgr_elapsed := 0,
                          stats := (stats s1)\<lparr>sweep := sweep (stats s1) + 1\<rparr>\<rparr>))
          else
            (case MOVE_TO_STATE DELETE s of
               Inl e \<Rightarrow> Inl e
             | Inr s1 \<Rightarrow> Inr (s1\<lparr>stats := (stats s1)\<lparr>deletes := deletes (stats s1) + 1\<rparr>\<rparr>))
      | STALE \<Rightarrow> Inl AssertFailed
      | LLGR_STALE \<Rightarrow> Inl AssertFailed
      | SWEEP \<Rightarrow> Inl AssertFailed
      | DELETE \<Rightarrow> Inl AssertFailed)"

text \<open>The \<^verbatim>\<open>BOOST_FOREACH\<close> over the registered tables in \<^verbatim>\<open>MembershipRequestInternal\<close>.\<close>

fun MembershipRequest_tables ::
  "BgpMembershipManager \<Rightarrow> BgpTable list \<Rightarrow> PeerCloseManager \<Rightarrow> fault + PeerCloseManager" where
  "MembershipRequest_tables mgr [] s = Inr s"
| "MembershipRequest_tables mgr (table # tables) s =
     (if IsRegistered mgr table then
        (if state s = DELETE
         then MembershipRequest_tables mgr tables (do_call (Unregister table) s)
         else MembershipRequest_tables mgr tables (do_call (UnregisterRibOut table) s))
      else if \<not> IsRibInRegistered mgr table then Inl AssertFailed
      else
        (if state s = DELETE
         then MembershipRequest_tables mgr tables (do_call (UnregisterRibIn table) s)
         else MembershipRequest_tables mgr tables (do_call (WalkRibIn table) s)))"

text \<open>
  The restart delay of the two timer phases: \<^verbatim>\<open>int time = seconds * 1000;
  time -= elapsed; if (time < 0) time = 0;\<close> on 32-bit integers, the comparison
  signed. Where the C++ arithmetic would overflow the model wraps around.
\<close>

definition restart_time :: "int32 \<Rightarrow> int32 \<Rightarrow> int32" where
  "restart_time seconds elapsed =
     (let time = seconds * 1000;
          time = time - elapsed
      in if time <s 0 then 0 else time)"

subsection \<open>The close cycle\<close>

text \<open>
  \<^verbatim>\<open>CloseInternal\<close>, \<^verbatim>\<open>ProcessClosure\<close>, \<^verbatim>\<open>MembershipRequestInternal\<close>,
  \<^verbatim>\<open>MembershipRequestCallbackInternal\<close> and \<^verbatim>\<open>CloseComplete\<close> call one another in a
  cycle. The second disjunct of the first assertion of the callback is the bare
  enumerator \<^verbatim>\<open>LLGR_STALE\<close>, which C++ reads as "its value is not 0".
\<close>

function CloseInternal :: "Env \<Rightarrow> PeerCloseManager \<Rightarrow> fault + PeerCloseManager"
  and ProcessClosure :: "Env \<Rightarrow> PeerCloseManager \<Rightarrow> fault + PeerCloseManager"
  and MembershipRequestInternal :: "Env \<Rightarrow> PeerCloseManager \<Rightarrow> fault + PeerCloseManager"
  and MembershipRequestCallbackInternal ::
        "Env \<Rightarrow> PeerCloseManager \<Rightarrow> fault + (bool \<times> PeerCloseManager)"
  and CloseComplete :: "Env \<Rightarrow> PeerCloseManager \<Rightarrow> fault + PeerCloseManager"
where
  "CloseInternal env s =
     (let s1 = s\<lparr>stats := (stats s)\<lparr>close := close (stats s) + 1\<rparr>\<rparr>
      in if close_again s1 then Inr s1
         else (case state s1 of
                 NONE \<Rightarrow> ProcessClosure env s1
               | GR_TIMER \<Rightarrow>
                   CloseComplete env
                     (s1\<lparr>close_again := True,
                         stats := (stats s1)\<lparr>nested := nested (stats s1) + 1\<rparr>,
                         gr_elapsed := gr_elapsed s1 + GetElapsedTime env\<rparr>)
               | LLGR_TIMER \<Rightarrow>
                   CloseComplete env
                     (s1\<lparr>close_again := True,
                         stats := (stats s1)\<lparr>nested := nested (stats s1) + 1\<rparr>,
                         llgr_elapsed := llgr_elapsed s1 + GetElapsedTime env\<rparr>)
               | STALE \<Rightarrow>
                   Inr (s1\<lparr>close_again := True,
                           stats := (stats s1)\<lparr>nested := nested (stats s1) + 1\<rparr>\<rparr>)
               | LLGR_STALE \<Rightarrow>
                   Inr (s1\<lparr>close_again := True,
                           stats := (stats s1)\<lparr>nested := nested (stats s1) + 1\<rparr>\<rparr>)
               | SWEEP \<Rightarrow>
                   Inr (s1\<lparr>close_again := True,
                           stats := (stats s1)\<lparr>nested := nested (stats s1) + 1\<rparr>\<rparr>)
               | DELETE \<Rightarrow>
                   Inr (s1\<lparr>close_again := True,
                           stats := (stats s1)\<lparr>nested := nested (stats s1) + 1\<rparr>\<rparr>)))"
| "ProcessClosure env s =
     (case ProcessClosure_switch env s of
        Inl e \<Rightarrow> Inl e
      | Inr s1 \<Rightarrow>
          MembershipRequestInternal env
            (if state s1 = DELETE then do_call CustomClose s1 else s1))"
| "MembershipRequestInternal env s =
     (if membership_state s = MEMBERSHIP_IN_USE then Inl AssertFailed
      else if \<not> CanUseMembershipManager env then
        Inr (s\<lparr>membership_state := MEMBERSHIP_IN_WAIT\<rparr>)
      else
        (let s1 = s\<lparr>membership_state := MEMBERSHIP_IN_USE\<rparr>
         in case membership_mgr env of
              None \<Rightarrow> Inr s1
            | Some mgr \<Rightarrow>
                if GetRegisteredRibs mgr = [] then
                  (case MembershipRequestCallbackInternal env s1 of
                     Inl e \<Rightarrow> Inl e
                   | Inr (b, s2) \<Rightarrow> Inr s2)
                else MembershipRequest_tables mgr (GetRegisteredRibs mgr) s1))"
| "MembershipRequestCallbackInternal env s =
     (if \<not> (state s = STALE \<or> State_value LLGR_STALE \<noteq> 0 \<or> state s = SWEEP \<or>
             state s = DELETE) then Inl AssertFailed
      else if membership_state s \<noteq> MEMBERSHIP_IN_USE then Inl AssertFailed
      else
        (case membership_mgr env of
           None \<Rightarrow> Inl NullDeref
         | Some mgr \<Rightarrow>
             if IsPending mgr then Inr (False, s)
             else
               (let s1 = s\<lparr>membership_state := MEMBERSHIP_NONE\<rparr>
                in if state s1 = DELETE then
                     (case MOVE_TO_STATE NONE s1 of
                        Inl e \<Rightarrow> Inl e
                      | Inr s2 \<Rightarrow>
                          (let s3 = do_call PeerDelete s2
                           in Inr (True,
                                s3\<lparr>gr_elapsed := 0, llgr_elapsed := 0,
                                   stats := (stats s3)\<lparr>init := init (stats s3) + 1\<rparr>,
                                   close_again := False, non_graceful := False\<rparr>)))
                   else if close_again s1 then
                     (case CloseComplete env s1 of
                        Inl e \<Rightarrow> Inl e
                      | Inr s2 \<Rightarrow> Inr (True, s2))
                   else if state s1 = STALE then
                     (case MOVE_TO_STATE GR_TIMER (do_call PeerCloseComplete s1) of
                        Inl e \<Rightarrow> Inl e
                      | Inr s2 \<Rightarrow>
                          (let s3 = s2\<lparr>families := GetGracefulRestartFamilies env\<rparr>;
                               time = restart_time (GetGracefulRestartTime env) (gr_elapsed s3);
                               s4 = StartRestartTimer time s3
                           in Inr (True,
                                s4\<lparr>stats := (stats s4)\<lparr>gr_timer := gr_timer (stats s4) + 1\<rparr>\<rparr>)))
                   else if state s1 = LLGR_STALE then
                     (case MOVE_TO_STATE LLGR_TIMER s1 of
                        Inl e \<Rightarrow> Inl e
                      | Inr s2 \<Rightarrow>
                          (let s3 = s2\<lparr>families := GetGracefulRestartFamilies env\<rparr>;
                               s4 = StartRestartTimer
                                      (1000 * GetLongLivedGracefulRestartTime env) s3;
                               time = restart_time (GetLongLivedGracefulRestartTime env)
                                        (llgr_elapsed s4);
                               s5 = StartRestartTimer time s4
                           in Inr (True,
                                s5\<lparr>stats := (stats s5)\<lparr>llgr_timer := llgr_timer (stats s5) + 1\<rparr>\<rparr>)))
                   else Inr (True, TriggerSweepStateActions s1))))"
| "CloseComplete env s =
     (case MOVE_TO_STATE NONE s of
        Inl e \<Rightarrow> Inl e
      | Inr s1 \<Rightarrow>
          (let s2 = s1\<lparr>stale_timer := Timer_Cancel (stale_timer s1),
                       sweep_timer := Timer_Cancel (sweep_timer s1),
                       families := {},
                       stats := (stats s1)\<lparr>init := init (stats s1) + 1\<rparr>\<rparr>
           in if close_again s2 then CloseInternal env (s2\<lparr>close_again := False\<rparr>)
              else Inr s2))"
  by pat_completeness auto
termination
  apply (relation "measure (\<lambda>x. case x of
      Inl (Inl (env, s)) \<Rightarrow>
        (if close_again s then 0
         else (case state s of NONE \<Rightarrow> 4 | GR_TIMER \<Rightarrow> 6 | LLGR_TIMER \<Rightarrow> 6 | _ \<Rightarrow> 0))
    | Inl (Inr (env, s)) \<Rightarrow> (if close_again s then 8 else 3)
    | Inr (Inl (env, s)) \<Rightarrow> (if close_again s then 7 else 2)
    | Inr (Inr (Inl (env, s))) \<Rightarrow> (if close_again s then 6 else 1)
    | Inr (Inr (Inr (env, s))) \<Rightarrow> (if close_again s then 5 else (0::nat)))")
   apply simp
  apply (auto simp: MOVE_TO_STATE_def ProcessClosure_switch_def do_call_def Let_def
              split: State.splits if_splits sum.splits)
  done

declare CloseInternal.simps [simp del]
declare ProcessClosure.simps [simp del]
declare MembershipRequestInternal.simps [simp del]
declare MembershipRequestCallbackInternal.simps [simp del]
declare CloseComplete.simps [simp del]

subsection \<open>The entry points\<close>

definition Close :: "Env \<Rightarrow> bool \<Rightarrow> PeerCloseManager \<Rightarrow> fault + PeerCloseManager" where
  "Close env ng s = CloseInternal env (s\<lparr>non_graceful := (non_graceful s \<or> ng)\<rparr>)"

definition RestartTimerCallback ::
  "Env \<Rightarrow> PeerCloseManager \<Rightarrow> fault + (bool \<times> PeerCloseManager)" where
  "RestartTimerCallback env s =
     (if state s = GR_TIMER \<or> state s = LLGR_TIMER then
        (case ProcessClosure env s of Inl e \<Rightarrow> Inl e | Inr s1 \<Rightarrow> Inr (False, s1))
      else Inr (False, s))"

definition ProcessSweepStateActions ::
  "Env \<Rightarrow> PeerCloseManager \<Rightarrow> fault + (bool \<times> PeerCloseManager)" where
  "ProcessSweepStateActions env s =
     (if state s \<noteq> SWEEP then Inl AssertFailed
      else (case CloseComplete env (do_call GracefulRestartSweep s) of
              Inl e \<Rightarrow> Inl e
            | Inr s1 \<Rightarrow> Inr (False, s1)))"

definition MembershipRequest :: "Env \<Rightarrow> PeerCloseManager \<Rightarrow> fault + PeerCloseManager" where
  "MembershipRequest env s = MembershipRequestInternal env s"

definition MembershipRequestCallback ::
  "Env \<Rightarrow> PeerCloseManager \<Rightarrow> fault + (bool \<times> PeerCloseManager)" where
  "MembershipRequestCallback env s = MembershipRequestCallbackInternal env s"

subsection \<open>The per-path callback of a RIB-In walk\<close>

text \<open>
  Modelled from the spec: \<^verbatim>\<open>BgpPath\<close>, \<^verbatim>\<open>BgpAttr\<close>, \<^verbatim>\<open>Community\<close>,
  \<^verbatim>\<open>DBRequest\<close> and \<^verbatim>\<open>BgpTable::InputCommon\<close> are not among the sources. A path
  carries its attributes, its id, its flag word and its label; an attribute set carries
  an optional community list (\<open>None\<close> for the null pointer); a path is stale when the
  bit \<^verbatim>\<open>BgpPath::Stale\<close> of its flag word is set, llgr-stale when the bit
  \<^verbatim>\<open>BgpPath::LlgrStale\<close> is, and resetting clears that bit. The three constants
  \<^verbatim>\<open>BgpPath::Stale\<close>, \<^verbatim>\<open>BgpPath::LlgrStale\<close> and \<^verbatim>\<open>CommunityType::NoLlgr\<close> are
  parameters (the record \<open>Constants\<close>). What is fed to \<^verbatim>\<open>InputCommon\<close> is returned
  as a value; the answer of the table is the parameter \<open>InputCommon\<close>.
\<close>

record Constants =
  Stale :: int32
  LlgrStale :: int32
  NoLlgr :: int32

record BgpAttr =
  community :: "int32 list option"

record BgpPath =
  GetAttr :: BgpAttr
  GetPathId :: int32
  GetFlags :: int32
  GetLabel :: int32

datatype DBOperation = DB_ENTRY_ADD_CHANGE | DB_ENTRY_DELETE

record InputRequest =
  oper :: DBOperation
  attrs :: "BgpAttr option"
  path_id :: int32
  flags :: int32
  label :: int32

definition IsStale :: "Constants \<Rightarrow> BgpPath \<Rightarrow> bool" where
  "IsStale k path = (GetFlags path AND Stale k \<noteq> 0)"

definition IsLlgrStale :: "Constants \<Rightarrow> BgpPath \<Rightarrow> bool" where
  "IsLlgrStale k path = (GetFlags path AND LlgrStale k \<noteq> 0)"

definition ResetStale :: "Constants \<Rightarrow> BgpPath \<Rightarrow> BgpPath" where
  "ResetStale k path = path\<lparr>GetFlags := GetFlags path AND NOT (Stale k)\<rparr>"

definition ResetLlgrStale :: "Constants \<Rightarrow> BgpPath \<Rightarrow> BgpPath" where
  "ResetLlgrStale k path = path\<lparr>GetFlags := GetFlags path AND NOT (LlgrStale k)\<rparr>"

definition ContainsValue :: "int32 list \<Rightarrow> int32 \<Rightarrow> bool" where
  "ContainsValue values v = (v \<in> set values)"

text \<open>The statement after the \<^verbatim>\<open>switch\<close>: the request handed to the table.\<close>

definition feed ::
  "(InputRequest \<Rightarrow> bool) \<Rightarrow> BgpPath \<Rightarrow> DBOperation \<Rightarrow> BgpAttr option \<Rightarrow> int32 \<Rightarrow>
   fault + (bool \<times> BgpPath \<times> InputRequest option)" where
  "feed InputCommon path op at stale_bits =
     (let req = \<lparr> oper = op, attrs = at, path_id = GetPathId path,
                   flags = GetFlags path OR stale_bits, label = GetLabel path \<rparr>
      in Inr (InputCommon req, path, Some req))"

text \<open>
  The callback returns the boolean of the source, the path as the callback leaves it and
  the request fed to the table, if any. \<open>table\<close> is \<open>None\<close> when
  \<^verbatim>\<open>root->parent()\<close> is null.
\<close>

definition MembershipPathCallback ::
  "Constants \<Rightarrow> (InputRequest \<Rightarrow> bool) \<Rightarrow> PeerCloseManager \<Rightarrow> BgpTable option \<Rightarrow> BgpPath \<Rightarrow>
   fault + (bool \<times> BgpPath \<times> InputRequest option)" where
  "MembershipPathCallback k InputCommon s table path =
     (if table = None then Inl AssertFailed
      else
        (case state s of
           NONE \<Rightarrow> Inr (False, path, None)
         | GR_TIMER \<Rightarrow> Inr (False, path, None)
         | LLGR_TIMER \<Rightarrow> Inr (False, path, None)
         | SWEEP \<Rightarrow>
             if \<not> IsStale k path \<and> \<not> IsLlgrStale k path then Inr (False, path, None)
             else feed InputCommon (ResetLlgrStale k (ResetStale k path)) DB_ENTRY_DELETE None 0
         | DELETE \<Rightarrow> feed InputCommon path DB_ENTRY_DELETE None 0
         | STALE \<Rightarrow>
             if IsStale k path then Inr (False, path, None)
             else feed InputCommon path DB_ENTRY_ADD_CHANGE (Some (GetAttr path)) (Stale k)
         | LLGR_STALE \<Rightarrow>
             if (case community (GetAttr path) of
                   None \<Rightarrow> False
                 | Some values \<Rightarrow> ContainsValue values (NoLlgr k))
             then feed InputCommon path DB_ENTRY_DELETE None 0
             else if IsLlgrStale k path then Inr (False, path, None)
             else feed InputCommon path DB_ENTRY_ADD_CHANGE (Some (GetAttr path)) (LlgrStale k)))"

subsection \<open>Runs of events\<close>

text \<open>
  One event is one call of an entry point under the lock, with the answers the
  collaborators give during that call.
\<close>

datatype Event =
    EvClose bool
  | EvEorReceived Family
  | EvRestartTimerFired
  | EvSweepTimerFired
  | EvMembershipRequest
  | EvMembershipWalkDone

fun handle_event :: "Env \<Rightarrow> Event \<Rightarrow> PeerCloseManager \<Rightarrow> fault + PeerCloseManager" where
  "handle_event env (EvClose ng) s = Close env ng s"
| "handle_event env (EvEorReceived family) s = Inr (ProcessEORMarkerReceived family s)"
| "handle_event env EvRestartTimerFired s = map_sum id snd (RestartTimerCallback env s)"
| "handle_event env EvSweepTimerFired s = map_sum id snd (ProcessSweepStateActions env s)"
| "handle_event env EvMembershipRequest s = MembershipRequest env s"
| "handle_event env EvMembershipWalkDone s = map_sum id snd (MembershipRequestCallback env s)"

fun run_events :: "(Env \<times> Event) list \<Rightarrow> PeerCloseManager \<Rightarrow> fault + PeerCloseManager" where
  "run_events [] s = Inr s"
| "run_events ((env, ev) # evs) s =
     (case handle_event env ev s of Inl e \<Rightarrow> Inl e | Inr s1 \<Rightarrow> run_events evs s1)"

subsection \<open>Concrete collaborators\<close>

text \<open>
  A membership manager with no table registered for the peer, and a peer that has
  negotiated graceful restart (120 s) and long-lived graceful restart (600 s) for two
  families and is not ready; \<open>env_wait\<close> is the same peer while the membership manager
  cannot be used yet.
\<close>

definition mgr_empty :: BgpMembershipManager where
  "mgr_empty = \<lparr> GetRegisteredRibs = [], IsRegistered = (\<lambda>t. False),
                  IsRibInRegistered = (\<lambda>t. False), IsPending = False \<rparr>"

definition env_gr :: Env where
  "env_gr = \<lparr> IsCloseGraceful = True, IsCloseLongLivedGraceful = True, IsReady = False,
              GetGracefulRestartTime = 120, GetLongLivedGracefulRestartTime = 600,
              GetGracefulRestartFamilies = {INET, INET6}, CanUseMembershipManager = True,
              membership_mgr = Some mgr_empty, GetElapsedTime = 30000 \<rparr>"

definition env_wait :: Env where
  "env_wait = env_gr\<lparr>CanUseMembershipManager := False\<rparr>"

subsection \<open>Concrete paths\<close>

text \<open>
  The attributes of a path carry \<^verbatim>\<open>NO_LLGR\<close> when their community list is present
  and contains the value (the condition the \<open>LLGR_STALE\<close> case tests).
\<close>

definition carries_NoLlgr :: "Constants \<Rightarrow> BgpPath \<Rightarrow> bool" where
  "carries_NoLlgr k path =
     (case community (GetAttr path) of None \<Rightarrow> False | Some vs \<Rightarrow> NoLlgr k \<in> set vs)"

text \<open>
  Sample values of the three constants (two distinct flag bits, and the value RFC 9494
  gives the \<^verbatim>\<open>NO_LLGR\<close> community), a fresh path, the same path marked stale, the
  same path with the \<^verbatim>\<open>NO_LLGR\<close> community, and a table that accepts every request.
\<close>

definition k0 :: Constants where
  "k0 = \<lparr> Stale = 4, LlgrStale = 256, NoLlgr = 0xFFFF0007 \<rparr>"

definition path_fresh :: BgpPath where
  "path_fresh = \<lparr> GetAttr = \<lparr> community = None \<rparr>, GetPathId = 1, GetFlags = 0,
                   GetLabel = 16 \<rparr>"

definition path_stale :: BgpPath where
  "path_stale = path_fresh\<lparr>GetFlags := 4\<rparr>"

definition path_no_llgr :: BgpPath where
  "path_no_llgr = path_fresh\<lparr>GetAttr := \<lparr> community = Some [0xFFFF0007] \<rparr>\<rparr>"

definition accept :: "InputRequest \<Rightarrow> bool" where
  "accept req = True"

subsection \<open>Concrete manager states\<close>

text \<open>
  The manager waiting in \<open>GR_TIMER\<close> for the End-of-RIB markers of two families, the
  restart timer armed with 120 s.
\<close>

definition gr_wait :: PeerCloseManager where
  "gr_wait = PeerCloseManager_new\<lparr>state := GR_TIMER, families := {INET, INET6},
               stale_timer := [120000]\<rparr>"

text \<open>
  The same peer with a null membership manager handle; the manager right after a
  graceful close has entered \<open>STALE\<close>; and the manager in \<open>STALE\<close>, its walk in flight,
  with a second close already latched.
\<close>

definition env_null_mgr :: Env where
  "env_null_mgr = env_gr\<lparr>membership_mgr := None\<rparr>"

definition stale_begun :: PeerCloseManager where
  "stale_begun = PeerCloseManager_new\<lparr>state := STALE,
     stats := (stats PeerCloseManager_new)\<lparr>close := 1, stale := 1\<rparr>,
     calls := [GracefulRestartStale]\<rparr>"

definition stale_latched :: PeerCloseManager where
  "stale_latched = PeerCloseManager_new\<lparr>state := STALE, close_again := True,
     membership_state := MEMBERSHIP_IN_USE,
     stats := (stats PeerCloseManager_new)\<lparr>close := 2, nested := 1, stale := 1\<rparr>,
     calls := [GracefulRestartStale, WalkRibIn 7]\<rparr>"

text \<open>The manager in \<open>LLGR_STALE\<close>, its walk in flight, 100 s of the window used up.\<close>

definition llgr_begun :: PeerCloseManager where
  "llgr_begun = PeerCloseManager_new\<lparr>state := LLGR_STALE, llgr_elapsed := 100000,
     membership_state := MEMBERSHIP_IN_USE, stale_timer := [],
     stats := (stats PeerCloseManager_new)\<lparr>close := 1, stale := 1, gr_timer := 1,
                                               llgr_stale := 1\<rparr>\<rparr>"

text \<open>
  The latched manager after a non-graceful close has been recorded, and the manager
  after the walk-done callback has served that latch against a peer with no table.
\<close>

definition stale_latched_hard :: PeerCloseManager where
  "stale_latched_hard = stale_latched\<lparr>non_graceful := True,
     stats := (stats stale_latched)\<lparr>close := 3\<rparr>\<rparr>"

definition latch_served :: PeerCloseManager where
  "latch_served = PeerCloseManager_new\<lparr>
     stats := (stats PeerCloseManager_new)\<lparr>init := 3, close := 4, nested := 1, stale := 1,
                                               deletes := 1\<rparr>,
     calls := [GracefulRestartStale, WalkRibIn 7, CustomClose, PeerDelete]\<rparr>"

text \<open>
  A graceful close followed, in \<open>GR_TIMER\<close>, by a membership request, and the manager
  the two events end in.
\<close>

definition request_in_timer :: "(Env \<times> Event) list" where
  "request_in_timer = [(env_gr, EvClose False), (env_gr, EvMembershipRequest)]"

definition request_in_timer_result :: PeerCloseManager where
  "request_in_timer_result =
     PeerCloseManager_new\<lparr>state := GR_TIMER, stale_timer := [120000], sweep_timer := [0],
       families := {INET, INET6},
       stats := (stats PeerCloseManager_new)\<lparr>close := 1, stale := 1, gr_timer := 1\<rparr>,
       calls := [GracefulRestartStale, PeerCloseComplete]\<rparr>"

subsection \<open>Entering LLGR_TIMER with a single arming\<close>

text \<open>
  Following the spec's words, not the source: on the walk-done callback in
  \<open>LLGR_STALE\<close> the manager moves to \<open>LLGR_TIMER\<close>, takes the families from the peer,
  arms the restart timer once, with \<open>max(0, llgr_time_ms - llgr_elapsed_ms)\<close> computed
  on the integers, and increments \<open>llgr_timer\<close>. The source arms twice; this definition
  is what its result is compared with.
\<close>

definition LLGR_TIMER_single_arming :: "Env \<Rightarrow> PeerCloseManager \<Rightarrow> PeerCloseManager" where
  "LLGR_TIMER_single_arming env s =
     (let d = max 0 (sint (GetLongLivedGracefulRestartTime env) * 1000 -
                     sint (llgr_elapsed s))
      in s\<lparr>state := LLGR_TIMER,
           families := GetGracefulRestartFamilies env,
           stale_timer := Timer_Start (word_of_int d) (Timer_Cancel (stale_timer s)),
           stats := (stats s)\<lparr>llgr_timer := llgr_timer (stats s) + 1\<rparr>\<rparr>)"

subsection \<open>Counting external closes\<close>

text \<open>
  The number of \<^verbatim>\<open>Close\<close> calls in a run; a run of two graceful closes against a peer
  with no table registered, and the manager it ends in; and the manager after one close
  that arrives in \<open>gr_wait\<close>, 30 s into the restart window.
\<close>

fun external_closes :: "(Env \<times> Event) list \<Rightarrow> nat" where
  "external_closes [] = 0"
| "external_closes ((env, EvClose ng) # evs) = Suc (external_closes evs)"
| "external_closes ((env, ev) # evs) = external_closes evs"

definition two_closes :: "(Env \<times> Event) list" where
  "two_closes = [(env_gr, EvClose False), (env_gr, EvClose False)]"

definition two_closes_result :: PeerCloseManager where
  "two_closes_result =
     PeerCloseManager_new\<lparr>state := GR_TIMER, gr_elapsed := 30000, stale_timer := [90000],
       families := {INET, INET6},
       stats := (stats PeerCloseManager_new)\<lparr>init := 2, close := 3, nested := 1,
                                                 stale := 2, gr_timer := 2\<rparr>,
       calls := [GracefulRestartStale, PeerCloseComplete, GracefulRestartStale,
                 PeerCloseComplete]\<rparr>"

definition gr_rearmed :: PeerCloseManager where
  "gr_rearmed = gr_wait\<lparr>gr_elapsed := 30000, stale_timer := [90000],
     stats := (stats gr_wait)\<lparr>init := 2, close := 2, nested := 1, stale := 1,
                                gr_timer := 1\<rparr>,
     calls := [GracefulRestartStale, PeerCloseComplete]\<rparr>"

subsection \<open>The invariant of the close cycle\<close>

text \<open>
  What holds of the manager between events: in \<open>NONE\<close> no close is latched, the
  sticky flag is clear and both elapsed times are 0; the sticky flag is set only while a
  close is latched or the cycle is in \<open>DELETE\<close>; in \<open>SWEEP\<close> both elapsed times are 0;
  and no close stays latched in a timer phase.
\<close>

definition close_cycle_invariant :: "PeerCloseManager \<Rightarrow> bool" where
  "close_cycle_invariant s =
     ((state s = NONE \<longrightarrow>
         \<not> close_again s \<and> \<not> non_graceful s \<and> gr_elapsed s = 0 \<and> llgr_elapsed s = 0)
      \<and> (non_graceful s \<longrightarrow> close_again s \<or> state s = DELETE)
      \<and> (state s = SWEEP \<longrightarrow> gr_elapsed s = 0 \<and> llgr_elapsed s = 0)
      \<and> (state s = GR_TIMER \<or> state s = LLGR_TIMER \<longrightarrow> \<not> close_again s))"

text \<open>
  A peer that has not negotiated graceful restart, and one that has not negotiated the
  long-lived one; a first graceful close while the membership manager cannot be used;
  a close of the peer without graceful restart; and a graceful close whose restart
  timer expires with the peer still away. The manager each run ends in is written out.
\<close>

definition env_not_graceful :: Env where
  "env_not_graceful = env_gr\<lparr>IsCloseGraceful := False\<rparr>"

definition env_gone :: Env where
  "env_gone = env_gr\<lparr>IsCloseLongLivedGraceful := False\<rparr>"

definition first_close :: "(Env \<times> Event) list" where
  "first_close = [(env_wait, EvClose False)]"

definition first_close_result :: PeerCloseManager where
  "first_close_result =
     PeerCloseManager_new\<lparr>state := STALE, membership_state := MEMBERSHIP_IN_WAIT,
       stats := (stats PeerCloseManager_new)\<lparr>close := 1, stale := 1\<rparr>,
       calls := [GracefulRestartStale]\<rparr>"

definition hard_close :: "(Env \<times> Event) list" where
  "hard_close = [(env_not_graceful, EvClose False)]"

definition hard_close_result :: PeerCloseManager where
  "hard_close_result =
     PeerCloseManager_new\<lparr>
       stats := (stats PeerCloseManager_new)\<lparr>init := 2, close := 1, deletes := 1\<rparr>,
       calls := [CustomClose, PeerDelete]\<rparr>"

definition gr_expiry :: "(Env \<times> Event) list" where
  "gr_expiry = [(env_gr, EvClose False), (env_gone, EvRestartTimerFired)]"

definition gr_expiry_result :: PeerCloseManager where
  "gr_expiry_result =
     PeerCloseManager_new\<lparr>stale_timer := [120000], families := {INET, INET6},
       stats := (stats PeerCloseManager_new)\<lparr>init := 2, close := 1, deletes := 1,
                                                 stale := 1, gr_timer := 1\<rparr>,
       calls := [GracefulRestartStale, PeerCloseComplete, CustomClose, PeerDelete]\<rparr>"

subsection \<open>A long-lived window of thirty days\<close>

text \<open>
  The same peer with a long-lived graceful restart time of 2592000 s (thirty days, well
  inside the 24 bits the protocol gives the field), and the manager in \<open>LLGR_STALE\<close>,
  its walk in flight, with nothing of the window used up.
\<close>

definition env_llgr_30d :: Env where
  "env_llgr_30d = env_gr\<lparr>GetLongLivedGracefulRestartTime := 2592000\<rparr>"

definition llgr_fresh :: PeerCloseManager where
  "llgr_fresh = llgr_begun\<lparr>llgr_elapsed := 0\<rparr>"

subsection \<open>A close latched in DELETE\<close>

text \<open>
  A membership manager with one table (7) the peer's RIB-In is registered with, the
  peer \<open>env_gr\<close> with that manager, and the same peer once it no longer offers
  long-lived graceful restart.
\<close>

definition mgr_table :: BgpMembershipManager where
  "mgr_table = \<lparr> GetRegisteredRibs = [7], IsRegistered = (\<lambda>t. False),
                  IsRibInRegistered = (\<lambda>t. t = 7), IsPending = False \<rparr>"

definition env_table :: Env where
  "env_table = env_gr\<lparr>membership_mgr := Some mgr_table\<rparr>"

definition env_table_gone :: Env where
  "env_table_gone = env_table\<lparr>IsCloseLongLivedGraceful := False\<rparr>"

text \<open>
  A graceful close, the end of its walk, the expiry of the restart timer (the cycle
  enters \<open>DELETE\<close>, its walk in flight), and then two more closes, the second one
  non-graceful; the manager these five events end in; the manager after the walk of
  \<open>DELETE\<close> is done; and the manager after one more graceful close.
\<close>

definition latch_in_DELETE :: "(Env \<times> Event) list" where
  "latch_in_DELETE =
     [(env_table, EvClose False), (env_table, EvMembershipWalkDone),
      (env_table_gone, EvRestartTimerFired), (env_table, EvClose False),
      (env_table, EvClose True)]"

definition latch_in_DELETE_result :: PeerCloseManager where
  "latch_in_DELETE_result =
     PeerCloseManager_new\<lparr>state := DELETE, close_again := True, non_graceful := True,
       membership_state := MEMBERSHIP_IN_USE, stale_timer := [120000],
       families := {INET, INET6},
       stats := (stats PeerCloseManager_new)\<lparr>close := 3, nested := 1, deletes := 1,
                                                 stale := 1, gr_timer := 1\<rparr>,
       calls := [GracefulRestartStale, WalkRibIn 7, PeerCloseComplete, CustomClose,
                 UnregisterRibIn 7]\<rparr>"

definition latch_dropped :: PeerCloseManager where
  "latch_dropped =
     latch_in_DELETE_result\<lparr>state := NONE, close_again := False, non_graceful := False,
       membership_state := MEMBERSHIP_NONE,
       stats := (stats latch_in_DELETE_result)\<lparr>init := 2\<rparr>,
       calls := calls latch_in_DELETE_result @ [PeerDelete]\<rparr>"

definition fresh_cycle :: PeerCloseManager where
  "fresh_cycle =
     latch_dropped\<lparr>state := STALE, membership_state := MEMBERSHIP_IN_USE,
       stats := (stats latch_dropped)\<lparr>close := 4, stale := 2\<rparr>,
       calls := calls latch_dropped @ [GracefulRestartStale, WalkRibIn 7]\<rparr>"

section \<open>Properties\<close>

subsection \<open>Unfolding a run\<close>

text \<open>The equations that evaluate the close cycle on a concrete manager and peer.\<close>

lemmas run_unfold =
  Close_def RestartTimerCallback_def
  CloseInternal.simps CloseComplete.simps ProcessClosure.simps
  MembershipRequestInternal.simps MembershipRequestCallbackInternal.simps
  ProcessClosure_switch_def
  env_gr_def env_wait_def mgr_empty_def PeerCloseManager_new_def
  MOVE_TO_STATE_def do_call_def StartRestartTimer_def Timer_Cancel_def Timer_Start_def
  restart_time_def word_sless_alt

subsection \<open>The loop over the tables\<close>

text \<open>The loop changes nothing but the list of calls.\<close>

lemma MembershipRequest_tables_only_calls:
  "MembershipRequest_tables mgr ts s = Inr s' \<Longrightarrow> \<exists>rest. s' = s\<lparr>calls := calls s @ rest\<rparr>"
proof (induction ts arbitrary: s)
  case Nil
  then show ?case by (intro exI [of _ "[]"]) simp
next
  case (Cons t ts)
  from Cons.prems obtain c where
      step: "MembershipRequest_tables mgr ts (do_call c s) = Inr s'"
    by (auto split: if_splits)
  from Cons.IH [OF step] obtain rest where
      "s' = (do_call c s)\<lparr>calls := calls (do_call c s) @ rest\<rparr>"
    by blast
  then show ?case
    by (intro exI [of _ "c # rest"]) (simp add: do_call_def)
qed


subsection \<open>Entering a phase\<close>

lemma MembershipRequest_tables_calls:
  "MembershipRequest_tables mgr ts s = Inr s' \<Longrightarrow>
     \<exists>rest. s' = s\<lparr>calls := calls s @ rest\<rparr> \<and> CustomClose \<notin> set rest"
proof (induction ts arbitrary: s)
  case Nil
  then show ?case by (intro exI [of _ "[]"]) simp
next
  case (Cons t ts)
  from Cons.prems obtain c where c: "c \<noteq> CustomClose"
      and step: "MembershipRequest_tables mgr ts (do_call c s) = Inr s'"
    by (auto split: if_splits)
  from Cons.IH [OF step] obtain rest where
      "s' = (do_call c s)\<lparr>calls := calls (do_call c s) @ rest\<rparr>" "CustomClose \<notin> set rest"
    by blast
  with c show ?case
    by (intro exI [of _ "c # rest"]) (simp add: do_call_def)
qed

lemma ProcessClosure_NONE:
  "state s = NONE \<Longrightarrow> ProcessClosure env s =
      (if non_graceful s \<or> \<not> IsCloseGraceful env
       then MembershipRequestInternal env
              (s\<lparr>state := DELETE, stats := (stats s)\<lparr>deletes := deletes (stats s) + 1\<rparr>,
                 calls := calls s @ [CustomClose]\<rparr>)
       else MembershipRequestInternal env
              (s\<lparr>state := STALE, stats := (stats s)\<lparr>stale := stale (stats s) + 1\<rparr>,
                 calls := calls s @ [GracefulRestartStale]\<rparr>))"
  by (simp add: ProcessClosure.simps ProcessClosure_switch_def MOVE_TO_STATE_def do_call_def)

lemma ProcessClosure_GR_TIMER:
  "state s = GR_TIMER \<Longrightarrow> ProcessClosure env s =
      (if IsReady env
       then MembershipRequestInternal env
              (s\<lparr>state := SWEEP, gr_elapsed := 0, llgr_elapsed := 0,
                 stats := (stats s)\<lparr>sweep := sweep (stats s) + 1\<rparr>\<rparr>)
       else if IsCloseLongLivedGraceful env
       then MembershipRequestInternal env
              (s\<lparr>state := LLGR_STALE,
                 stats := (stats s)\<lparr>llgr_stale := llgr_stale (stats s) + 1\<rparr>\<rparr>)
       else MembershipRequestInternal env
              (s\<lparr>state := DELETE, stats := (stats s)\<lparr>deletes := deletes (stats s) + 1\<rparr>,
                 calls := calls s @ [CustomClose]\<rparr>))"
  by (simp add: ProcessClosure.simps ProcessClosure_switch_def MOVE_TO_STATE_def do_call_def)

lemma MembershipRequestInternal_DELETE_calls:
  assumes "state s = DELETE" and "MembershipRequestInternal env s = Inr s'"
  shows "\<exists>rest. calls s' = calls s @ rest \<and> CustomClose \<notin> set rest"
  using assms
  by (auto simp: MembershipRequestInternal.simps MembershipRequestCallbackInternal.simps
                  MOVE_TO_STATE_def do_call_def Let_def
           split: if_splits option.splits sum.splits prod.splits
           dest!: MembershipRequest_tables_calls)

lemma ProcessClosure_LLGR_TIMER:
  "state s = LLGR_TIMER \<Longrightarrow> ProcessClosure env s =
      (if IsReady env
       then MembershipRequestInternal env
              (s\<lparr>state := SWEEP, gr_elapsed := 0, llgr_elapsed := 0,
                 stats := (stats s)\<lparr>sweep := sweep (stats s) + 1\<rparr>\<rparr>)
       else MembershipRequestInternal env
              (s\<lparr>state := DELETE, stats := (stats s)\<lparr>deletes := deletes (stats s) + 1\<rparr>,
                 calls := calls s @ [CustomClose]\<rparr>))"
  by (simp add: ProcessClosure.simps ProcessClosure_switch_def MOVE_TO_STATE_def do_call_def)

lemma ProcessClosure_switch_DELETE_calls:
  assumes "ProcessClosure_switch env s = Inr s1" and "state s1 = DELETE"
  shows "calls s1 = calls s"
  using assms
  by (cases "state s")
     (auto simp: ProcessClosure_switch_def MOVE_TO_STATE_def do_call_def split: if_splits)

lemma ProcessClosure_into_DELETE:
  assumes "ProcessClosure_switch env s = Inr s1" and "state s1 = DELETE"
  shows "ProcessClosure env s =
           MembershipRequestInternal env (s1\<lparr>calls := calls s @ [CustomClose]\<rparr>)"
  using assms ProcessClosure_switch_DELETE_calls [OF assms]
  by (simp add: ProcessClosure.simps do_call_def)

text \<open>
  C1. \<^verbatim>\<open>ProcessClosure\<close> dispatches on the current state. From \<open>NONE\<close>: when the sticky
  \<open>non_graceful\<close> flag is set or the peer's close is not graceful, the state becomes
  \<open>DELETE\<close> and \<open>deletes\<close> is incremented; otherwise the state becomes \<open>STALE\<close>,
  \<open>stale\<close> is incremented and \<^verbatim>\<open>GracefulRestartStale\<close> is called on the peer. From
  \<open>GR_TIMER\<close>: when the peer is ready the state becomes \<open>SWEEP\<close>, both elapsed times are
  cleared and \<open>sweep\<close> is incremented; else when the close is long-lived graceful the
  state becomes \<open>LLGR_STALE\<close> and \<open>llgr_stale\<close> is incremented; else the state becomes
  \<open>DELETE\<close> and \<open>deletes\<close> is incremented. From \<open>LLGR_TIMER\<close>: \<open>SWEEP\<close> when the peer
  is ready, else \<open>DELETE\<close>. Whenever the new state is \<open>DELETE\<close>, from whichever state,
  \<^verbatim>\<open>CustomClose\<close> is called exactly once, and before the membership request: the switch
  itself makes no call, the request runs on the state whose calls end with
  \<^verbatim>\<open>CustomClose\<close>, and it adds no further \<^verbatim>\<open>CustomClose\<close>.
\<close>

theorem ProcessClosure_dispatch:
  "(state s = NONE \<longrightarrow> ProcessClosure env s =
      (if non_graceful s \<or> \<not> IsCloseGraceful env
       then MembershipRequestInternal env
              (s\<lparr>state := DELETE, stats := (stats s)\<lparr>deletes := deletes (stats s) + 1\<rparr>,
                 calls := calls s @ [CustomClose]\<rparr>)
       else MembershipRequestInternal env
              (s\<lparr>state := STALE, stats := (stats s)\<lparr>stale := stale (stats s) + 1\<rparr>,
                 calls := calls s @ [GracefulRestartStale]\<rparr>)))
   \<and> (state s = GR_TIMER \<longrightarrow> ProcessClosure env s =
      (if IsReady env
       then MembershipRequestInternal env
              (s\<lparr>state := SWEEP, gr_elapsed := 0, llgr_elapsed := 0,
                 stats := (stats s)\<lparr>sweep := sweep (stats s) + 1\<rparr>\<rparr>)
       else if IsCloseLongLivedGraceful env
       then MembershipRequestInternal env
              (s\<lparr>state := LLGR_STALE,
                 stats := (stats s)\<lparr>llgr_stale := llgr_stale (stats s) + 1\<rparr>\<rparr>)
       else MembershipRequestInternal env
              (s\<lparr>state := DELETE, stats := (stats s)\<lparr>deletes := deletes (stats s) + 1\<rparr>,
                 calls := calls s @ [CustomClose]\<rparr>)))
   \<and> (state s = LLGR_TIMER \<longrightarrow> ProcessClosure env s =
      (if IsReady env
       then MembershipRequestInternal env
              (s\<lparr>state := SWEEP, gr_elapsed := 0, llgr_elapsed := 0,
                 stats := (stats s)\<lparr>sweep := sweep (stats s) + 1\<rparr>\<rparr>)
       else MembershipRequestInternal env
              (s\<lparr>state := DELETE, stats := (stats s)\<lparr>deletes := deletes (stats s) + 1\<rparr>,
                 calls := calls s @ [CustomClose]\<rparr>)))
   \<and> (ProcessClosure_switch env s = Inr s1 \<and> state s1 = DELETE \<longrightarrow>
        calls s1 = calls s \<and>
        ProcessClosure env s =
          MembershipRequestInternal env (s1\<lparr>calls := calls s @ [CustomClose]\<rparr>))
   \<and> (ProcessClosure_switch env s = Inr s1 \<and> state s1 = DELETE \<and>
        ProcessClosure env s = Inr s' \<longrightarrow>
        (\<exists>rest. calls s' = calls s @ CustomClose # rest \<and> CustomClose \<notin> set rest))"
proof -
  have 1: "state s = NONE \<longrightarrow> ProcessClosure env s =
      (if non_graceful s \<or> \<not> IsCloseGraceful env
       then MembershipRequestInternal env
              (s\<lparr>state := DELETE, stats := (stats s)\<lparr>deletes := deletes (stats s) + 1\<rparr>,
                 calls := calls s @ [CustomClose]\<rparr>)
       else MembershipRequestInternal env
              (s\<lparr>state := STALE, stats := (stats s)\<lparr>stale := stale (stats s) + 1\<rparr>,
                 calls := calls s @ [GracefulRestartStale]\<rparr>))"
    using ProcessClosure_NONE [of s env] by blast
  have 2: "state s = GR_TIMER \<longrightarrow> ProcessClosure env s =
      (if IsReady env
       then MembershipRequestInternal env
              (s\<lparr>state := SWEEP, gr_elapsed := 0, llgr_elapsed := 0,
                 stats := (stats s)\<lparr>sweep := sweep (stats s) + 1\<rparr>\<rparr>)
       else if IsCloseLongLivedGraceful env
       then MembershipRequestInternal env
              (s\<lparr>state := LLGR_STALE,
                 stats := (stats s)\<lparr>llgr_stale := llgr_stale (stats s) + 1\<rparr>\<rparr>)
       else MembershipRequestInternal env
              (s\<lparr>state := DELETE, stats := (stats s)\<lparr>deletes := deletes (stats s) + 1\<rparr>,
                 calls := calls s @ [CustomClose]\<rparr>))"
    using ProcessClosure_GR_TIMER [of s env] by blast
  have 3: "state s = LLGR_TIMER \<longrightarrow> ProcessClosure env s =
      (if IsReady env
       then MembershipRequestInternal env
              (s\<lparr>state := SWEEP, gr_elapsed := 0, llgr_elapsed := 0,
                 stats := (stats s)\<lparr>sweep := sweep (stats s) + 1\<rparr>\<rparr>)
       else MembershipRequestInternal env
              (s\<lparr>state := DELETE, stats := (stats s)\<lparr>deletes := deletes (stats s) + 1\<rparr>,
                 calls := calls s @ [CustomClose]\<rparr>))"
    using ProcessClosure_LLGR_TIMER [of s env] by blast
  have 4: "ProcessClosure_switch env s = Inr s1 \<and> state s1 = DELETE \<longrightarrow>
        calls s1 = calls s \<and>
        ProcessClosure env s =
          MembershipRequestInternal env (s1\<lparr>calls := calls s @ [CustomClose]\<rparr>)"
    using ProcessClosure_switch_DELETE_calls [of env s s1]
          ProcessClosure_into_DELETE [of env s s1] by blast
  have 5: "ProcessClosure_switch env s = Inr s1 \<and> state s1 = DELETE \<and>
        ProcessClosure env s = Inr s' \<longrightarrow>
        (\<exists>rest. calls s' = calls s @ CustomClose # rest \<and> CustomClose \<notin> set rest)"
  proof
    assume a: "ProcessClosure_switch env s = Inr s1 \<and> state s1 = DELETE \<and>
        ProcessClosure env s = Inr s'"
    then have sw: "ProcessClosure_switch env s = Inr s1" and d: "state s1 = DELETE"
      and pc: "ProcessClosure env s = Inr s'" by simp_all
    let ?x = "s1\<lparr>calls := calls s @ [CustomClose]\<rparr>"
    from pc have "MembershipRequestInternal env ?x = Inr s'"
      by (simp add: ProcessClosure_into_DELETE [OF sw d])
    moreover have "state ?x = DELETE" using d by simp
    ultimately obtain rest where r: "calls s' = calls ?x @ rest" "CustomClose \<notin> set rest"
      using MembershipRequestInternal_DELETE_calls by blast
    then show "\<exists>rest. calls s' = calls s @ CustomClose # rest \<and> CustomClose \<notin> set rest"
      by simp
  qed
  from 1 2 3 4 5 show ?thesis by blast
qed

theorem ProcessClosure_dispatch_witness:
  "ProcessClosure env_wait PeerCloseManager_new =
     Inr (PeerCloseManager_new\<lparr>state := STALE,
            stats := (stats PeerCloseManager_new)\<lparr>stale := 1\<rparr>,
            calls := [GracefulRestartStale], membership_state := MEMBERSHIP_IN_WAIT\<rparr>)
   \<and> ProcessClosure env_wait (PeerCloseManager_new\<lparr>state := GR_TIMER\<rparr>) =
     Inr (PeerCloseManager_new\<lparr>state := LLGR_STALE,
            stats := (stats PeerCloseManager_new)\<lparr>llgr_stale := 1\<rparr>,
            membership_state := MEMBERSHIP_IN_WAIT\<rparr>)
   \<and> ProcessClosure env_wait (PeerCloseManager_new\<lparr>state := LLGR_TIMER\<rparr>) =
     Inr (PeerCloseManager_new\<lparr>state := DELETE,
            stats := (stats PeerCloseManager_new)\<lparr>deletes := 1\<rparr>,
            calls := [CustomClose], membership_state := MEMBERSHIP_IN_WAIT\<rparr>)
   \<and> (\<exists>rest. calls (PeerCloseManager_new\<lparr>state := DELETE,
                   stats := (stats PeerCloseManager_new)\<lparr>deletes := 1\<rparr>,
                   calls := [CustomClose], membership_state := MEMBERSHIP_IN_WAIT\<rparr>) =
          calls (PeerCloseManager_new\<lparr>state := LLGR_TIMER\<rparr>) @ CustomClose # rest \<and>
          CustomClose \<notin> set rest)"
proof -
  let ?s = "PeerCloseManager_new"
  let ?g = "PeerCloseManager_new\<lparr>state := GR_TIMER\<rparr>"
  let ?l = "PeerCloseManager_new\<lparr>state := LLGR_TIMER\<rparr>"
  let ?l1 = "PeerCloseManager_new\<lparr>state := DELETE,
               stats := (stats PeerCloseManager_new)\<lparr>deletes := 1\<rparr>\<rparr>"
  let ?l2 = "PeerCloseManager_new\<lparr>state := DELETE,
               stats := (stats PeerCloseManager_new)\<lparr>deletes := 1\<rparr>,
               calls := [CustomClose], membership_state := MEMBERSHIP_IN_WAIT\<rparr>"
  have wait: "\<And>s. MembershipRequestInternal env_wait s =
      (if membership_state s = MEMBERSHIP_IN_USE then Inl AssertFailed
       else Inr (s\<lparr>membership_state := MEMBERSHIP_IN_WAIT\<rparr>))"
    by (simp add: MembershipRequestInternal.simps env_wait_def env_gr_def)
  have envw: "IsCloseGraceful env_wait" "IsCloseLongLivedGraceful env_wait"
      "\<not> IsReady env_wait"
    by (simp_all add: env_wait_def env_gr_def)
  have hs: "state ?s = NONE" by (simp add: PeerCloseManager_new_def)
  have hg: "state ?g = GR_TIMER" by simp
  have hl: "state ?l = LLGR_TIMER" by simp
  note ea = ProcessClosure_dispatch [where s = "?s" and env = env_wait,
              THEN conjunct1, rule_format, OF hs]
  note eb = ProcessClosure_dispatch [where s = "?g" and env = env_wait,
              THEN conjunct2, THEN conjunct1, rule_format, OF hg]
  have a: "ProcessClosure env_wait ?s = Inr (?s\<lparr>state := STALE,
            stats := (stats ?s)\<lparr>stale := 1\<rparr>,
            calls := [GracefulRestartStale], membership_state := MEMBERSHIP_IN_WAIT\<rparr>)"
    unfolding ea by (simp add: wait envw PeerCloseManager_new_def)
  have b: "ProcessClosure env_wait ?g = Inr (?s\<lparr>state := LLGR_STALE,
            stats := (stats ?s)\<lparr>llgr_stale := 1\<rparr>,
            membership_state := MEMBERSHIP_IN_WAIT\<rparr>)"
    unfolding eb by (simp add: wait envw PeerCloseManager_new_def)
  have sw: "ProcessClosure_switch env_wait ?l = Inr ?l1"
    by (simp add: ProcessClosure_switch_def MOVE_TO_STATE_def PeerCloseManager_new_def envw)
  have hd: "state ?l1 = DELETE" by simp
  note ec = ProcessClosure_dispatch [where s = "?l" and env = env_wait and ?s1.0 = "?l1",
              THEN conjunct2, THEN conjunct2, THEN conjunct2, THEN conjunct1, rule_format,
              OF conjI [OF sw hd], THEN conjunct2]
  have pc: "ProcessClosure env_wait ?l = Inr ?l2"
    unfolding ec by (simp add: wait PeerCloseManager_new_def)
  have c: "\<exists>rest. calls ?l2 = calls ?l @ CustomClose # rest \<and> CustomClose \<notin> set rest"
    by (rule ProcessClosure_dispatch [where s = "?l" and env = env_wait and ?s1.0 = "?l1"
           and s' = "?l2", THEN conjunct2, THEN conjunct2, THEN conjunct2, THEN conjunct2,
           rule_format, OF conjI [OF sw conjI [OF hd pc]]])
  from a b pc c show ?thesis by blast
qed

subsection \<open>The per-path callback\<close>

lemma reset_both_clears:
  "\<not> IsStale k (ResetLlgrStale k (ResetStale k path)) \<and>
   \<not> IsLlgrStale k (ResetLlgrStale k (ResetStale k path))"
  by (auto simp: IsStale_def IsLlgrStale_def ResetStale_def ResetLlgrStale_def bit_eq_iff
                 bit_and_iff bit_not_iff)

text \<open>
  C2. For every path handed to \<^verbatim>\<open>MembershipPathCallback\<close> (with a table): in \<open>NONE\<close>,
  \<open>GR_TIMER\<close> and \<open>LLGR_TIMER\<close> the callback returns false, feeds nothing and leaves the
  path as it is; in \<open>STALE\<close> an already stale path is left alone and any other is fed
  as \<^verbatim>\<open>ADD_CHANGE\<close> with its own attributes and the \<^verbatim>\<open>Stale\<close> bit merged into the
  flags; in \<open>LLGR_STALE\<close> a path whose attributes carry \<^verbatim>\<open>NO_LLGR\<close> is fed as
  \<^verbatim>\<open>DELETE\<close> with null attributes, an already llgr-stale path is left alone, any other
  is fed as \<^verbatim>\<open>ADD_CHANGE\<close> with the \<^verbatim>\<open>LlgrStale\<close> bit; in \<open>SWEEP\<close> a path that is
  neither stale nor llgr-stale is left alone, and a stale or llgr-stale one has both bits
  cleared and is fed as \<^verbatim>\<open>DELETE\<close> with null attributes; in \<open>DELETE\<close> every path is fed
  as \<^verbatim>\<open>DELETE\<close> with null attributes. Every request fed carries the path's id and
  label and the path's flags merged with the stale bits of the phase, and the callback
  returns the table's answer.
\<close>

theorem MembershipPathCallback_table:
  assumes "table \<noteq> None"
  shows
  "(state s = NONE \<or> state s = GR_TIMER \<or> state s = LLGR_TIMER \<longrightarrow>
      MembershipPathCallback k ic s table path = Inr (False, path, None))
   \<and> (state s = STALE \<longrightarrow>
      MembershipPathCallback k ic s table path =
        (if IsStale k path then Inr (False, path, None)
         else (let req = \<lparr> oper = DB_ENTRY_ADD_CHANGE, attrs = Some (GetAttr path),
                           path_id = GetPathId path, flags = GetFlags path OR Stale k,
                           label = GetLabel path \<rparr>
               in Inr (ic req, path, Some req))))
   \<and> (state s = LLGR_STALE \<longrightarrow>
      MembershipPathCallback k ic s table path =
        (if carries_NoLlgr k path then
           (let req = \<lparr> oper = DB_ENTRY_DELETE, attrs = None, path_id = GetPathId path,
                         flags = GetFlags path, label = GetLabel path \<rparr>
            in Inr (ic req, path, Some req))
         else if IsLlgrStale k path then Inr (False, path, None)
         else (let req = \<lparr> oper = DB_ENTRY_ADD_CHANGE, attrs = Some (GetAttr path),
                           path_id = GetPathId path, flags = GetFlags path OR LlgrStale k,
                           label = GetLabel path \<rparr>
               in Inr (ic req, path, Some req))))
   \<and> (state s = SWEEP \<longrightarrow>
      MembershipPathCallback k ic s table path =
        (if \<not> IsStale k path \<and> \<not> IsLlgrStale k path then Inr (False, path, None)
         else (let path' = path\<lparr>GetFlags := (GetFlags path AND NOT (Stale k))
                                               AND NOT (LlgrStale k)\<rparr>;
                   req = \<lparr> oper = DB_ENTRY_DELETE, attrs = None, path_id = GetPathId path,
                           flags = GetFlags path', label = GetLabel path \<rparr>
               in Inr (ic req, path', Some req)))
      \<and> \<not> IsStale k (path\<lparr>GetFlags := (GetFlags path AND NOT (Stale k))
                                               AND NOT (LlgrStale k)\<rparr>)
      \<and> \<not> IsLlgrStale k (path\<lparr>GetFlags := (GetFlags path AND NOT (Stale k))
                                               AND NOT (LlgrStale k)\<rparr>))
   \<and> (state s = DELETE \<longrightarrow>
      MembershipPathCallback k ic s table path =
        (let req = \<lparr> oper = DB_ENTRY_DELETE, attrs = None, path_id = GetPathId path,
                      flags = GetFlags path, label = GetLabel path \<rparr>
         in Inr (ic req, path, Some req)))
   \<and> (\<forall>b path' req. MembershipPathCallback k ic s table path = Inr (b, path', Some req) \<longrightarrow>
        b = ic req \<and> path_id req = GetPathId path \<and> label req = GetLabel path \<and>
        GetPathId path' = GetPathId path \<and> GetLabel path' = GetLabel path \<and>
        GetAttr path' = GetAttr path \<and>
        (flags req = GetFlags path' \<or> flags req = GetFlags path' OR Stale k \<or>
         flags req = GetFlags path' OR LlgrStale k))"
proof -
  have carries: "carries_NoLlgr k path =
      (case community (GetAttr path) of None \<Rightarrow> False
       | Some values \<Rightarrow> ContainsValue values (NoLlgr k))"
    by (simp add: carries_NoLlgr_def ContainsValue_def split: option.splits)
  have none: "state s = NONE \<or> state s = GR_TIMER \<or> state s = LLGR_TIMER \<longrightarrow>
      MembershipPathCallback k ic s table path = Inr (False, path, None)"
    using assms by (auto simp: MembershipPathCallback_def)
  have stale: "state s = STALE \<longrightarrow>
      MembershipPathCallback k ic s table path =
        (if IsStale k path then Inr (False, path, None)
         else (let req = \<lparr> oper = DB_ENTRY_ADD_CHANGE, attrs = Some (GetAttr path),
                           path_id = GetPathId path, flags = GetFlags path OR Stale k,
                           label = GetLabel path \<rparr>
               in Inr (ic req, path, Some req)))"
    using assms by (auto simp: MembershipPathCallback_def feed_def)
  have llgr: "state s = LLGR_STALE \<longrightarrow>
      MembershipPathCallback k ic s table path =
        (if carries_NoLlgr k path then
           (let req = \<lparr> oper = DB_ENTRY_DELETE, attrs = None, path_id = GetPathId path,
                         flags = GetFlags path, label = GetLabel path \<rparr>
            in Inr (ic req, path, Some req))
         else if IsLlgrStale k path then Inr (False, path, None)
         else (let req = \<lparr> oper = DB_ENTRY_ADD_CHANGE, attrs = Some (GetAttr path),
                           path_id = GetPathId path, flags = GetFlags path OR LlgrStale k,
                           label = GetLabel path \<rparr>
               in Inr (ic req, path, Some req)))"
    using assms by (auto simp: MembershipPathCallback_def feed_def carries)
  have sweep: "state s = SWEEP \<longrightarrow>
      MembershipPathCallback k ic s table path =
        (if \<not> IsStale k path \<and> \<not> IsLlgrStale k path then Inr (False, path, None)
         else (let path' = path\<lparr>GetFlags := (GetFlags path AND NOT (Stale k))
                                               AND NOT (LlgrStale k)\<rparr>;
                   req = \<lparr> oper = DB_ENTRY_DELETE, attrs = None, path_id = GetPathId path,
                           flags = GetFlags path', label = GetLabel path \<rparr>
               in Inr (ic req, path', Some req)))"
    using assms
    by (auto simp: MembershipPathCallback_def feed_def ResetStale_def ResetLlgrStale_def)
  have cleared: "\<not> IsStale k (path\<lparr>GetFlags := (GetFlags path AND NOT (Stale k))
                                               AND NOT (LlgrStale k)\<rparr>)
      \<and> \<not> IsLlgrStale k (path\<lparr>GetFlags := (GetFlags path AND NOT (Stale k))
                                               AND NOT (LlgrStale k)\<rparr>)"
    using reset_both_clears [of k path] by (simp add: ResetStale_def ResetLlgrStale_def)
  have del: "state s = DELETE \<longrightarrow>
      MembershipPathCallback k ic s table path =
        (let req = \<lparr> oper = DB_ENTRY_DELETE, attrs = None, path_id = GetPathId path,
                      flags = GetFlags path, label = GetLabel path \<rparr>
         in Inr (ic req, path, Some req))"
    using assms by (auto simp: MembershipPathCallback_def feed_def)
  have keep: "\<forall>b path' req.
        MembershipPathCallback k ic s table path = Inr (b, path', Some req) \<longrightarrow>
        b = ic req \<and> path_id req = GetPathId path \<and> label req = GetLabel path \<and>
        GetPathId path' = GetPathId path \<and> GetLabel path' = GetLabel path \<and>
        GetAttr path' = GetAttr path \<and>
        (flags req = GetFlags path' \<or> flags req = GetFlags path' OR Stale k \<or>
         flags req = GetFlags path' OR LlgrStale k)"
    by (cases "state s")
       (auto simp: MembershipPathCallback_def feed_def ResetStale_def ResetLlgrStale_def
                   Let_def
             split: if_splits)
  from none stale llgr sweep cleared del keep show ?thesis by blast
qed

theorem MembershipPathCallback_table_witness:
  "MembershipPathCallback k0 accept (PeerCloseManager_new\<lparr>state := GR_TIMER\<rparr>) (Some 1)
      path_stale = Inr (False, path_stale, None)
   \<and> MembershipPathCallback k0 accept (PeerCloseManager_new\<lparr>state := STALE\<rparr>) (Some 1)
      path_fresh =
      Inr (True, path_fresh,
           Some \<lparr> oper = DB_ENTRY_ADD_CHANGE, attrs = Some \<lparr> community = None \<rparr>,
                  path_id = 1, flags = 4, label = 16 \<rparr>)
   \<and> MembershipPathCallback k0 accept (PeerCloseManager_new\<lparr>state := LLGR_STALE\<rparr>) (Some 1)
      path_no_llgr =
      Inr (True, path_no_llgr,
           Some \<lparr> oper = DB_ENTRY_DELETE, attrs = None, path_id = 1, flags = 0, label = 16 \<rparr>)
   \<and> MembershipPathCallback k0 accept (PeerCloseManager_new\<lparr>state := SWEEP\<rparr>) (Some 1)
      path_stale =
      Inr (True, path_fresh,
           Some \<lparr> oper = DB_ENTRY_DELETE, attrs = None, path_id = 1, flags = 0, label = 16 \<rparr>)
   \<and> MembershipPathCallback k0 accept (PeerCloseManager_new\<lparr>state := DELETE\<rparr>) (Some 1)
      path_stale =
      Inr (True, path_stale,
           Some \<lparr> oper = DB_ENTRY_DELETE, attrs = None, path_id = 1, flags = 4, label = 16 \<rparr>)"
proof -
  let ?new = PeerCloseManager_new
  have t: "Some (1::nat) \<noteq> None" by simp
  note all = MembershipPathCallback_table [OF t, where k = k0 and ic = accept]
  note timer = all [THEN conjunct1, rule_format]
  note stale = all [THEN conjunct2, THEN conjunct1, rule_format]
  note llgr = all [THEN conjunct2, THEN conjunct2, THEN conjunct1, rule_format]
  note sweep = all [THEN conjunct2, THEN conjunct2, THEN conjunct2, THEN conjunct1,
                    rule_format, THEN conjunct1]
  note del = all [THEN conjunct2, THEN conjunct2, THEN conjunct2, THEN conjunct2,
                  THEN conjunct1, rule_format]
  have vals: "IsStale k0 path_stale" "\<not> IsStale k0 path_fresh"
      "carries_NoLlgr k0 path_no_llgr"
    by (simp_all add: IsStale_def carries_NoLlgr_def k0_def path_stale_def path_fresh_def
                      path_no_llgr_def)
  have a: "MembershipPathCallback k0 accept (?new\<lparr>state := GR_TIMER\<rparr>)
      (Some 1) path_stale = Inr (False, path_stale, None)"
    by (rule timer) simp
  have b: "MembershipPathCallback k0 accept (?new\<lparr>state := STALE\<rparr>)
      (Some 1) path_fresh =
      Inr (True, path_fresh,
           Some \<lparr> oper = DB_ENTRY_ADD_CHANGE, attrs = Some \<lparr> community = None \<rparr>,
                  path_id = 1, flags = 4, label = 16 \<rparr>)"
    by (subst stale) (simp_all add: vals accept_def, simp add: path_fresh_def k0_def)
  have c: "MembershipPathCallback k0 accept (?new\<lparr>state := LLGR_STALE\<rparr>)
      (Some 1) path_no_llgr =
      Inr (True, path_no_llgr,
           Some \<lparr> oper = DB_ENTRY_DELETE, attrs = None, path_id = 1, flags = 0, label = 16 \<rparr>)"
    by (subst llgr) (simp_all add: vals accept_def, simp add: path_no_llgr_def path_fresh_def)
  have d: "MembershipPathCallback k0 accept (?new\<lparr>state := SWEEP\<rparr>)
      (Some 1) path_stale =
      Inr (True, path_fresh,
           Some \<lparr> oper = DB_ENTRY_DELETE, attrs = None, path_id = 1, flags = 0, label = 16 \<rparr>)"
    by (subst sweep) (simp_all add: vals accept_def, simp add: path_stale_def path_fresh_def k0_def)
  have e: "MembershipPathCallback k0 accept (?new\<lparr>state := DELETE\<rparr>)
      (Some 1) path_stale =
      Inr (True, path_stale,
           Some \<lparr> oper = DB_ENTRY_DELETE, attrs = None, path_id = 1, flags = 4, label = 16 \<rparr>)"
    by (subst del) (simp_all add: accept_def, simp add: path_stale_def path_fresh_def)
  from a b c d e show ?thesis by blast
qed

subsection \<open>End-of-RIB markers\<close>

text \<open>
  C5. \<^verbatim>\<open>ProcessEORMarkerReceived\<close> changes the manager only in \<open>GR_TIMER\<close> or
  \<open>LLGR_TIMER\<close> with a non-empty set of families. There \<open>UNSPEC\<close> clears the set and any
  other family is removed from it, and the restart timer is re-armed with delay 0
  exactly when the set has become empty. In every other state, or with the set already
  empty, the call changes nothing; and a second marker for the same family changes
  nothing more.
\<close>

theorem ProcessEORMarkerReceived_effect:
  "(\<not> ((state s = GR_TIMER \<or> state s = LLGR_TIMER) \<and> families s \<noteq> {}) \<longrightarrow>
      ProcessEORMarkerReceived family s = s)
   \<and> ((state s = GR_TIMER \<or> state s = LLGR_TIMER) \<and> families s \<noteq> {} \<longrightarrow>
      ProcessEORMarkerReceived family s =
        s\<lparr>families := (if family = UNSPEC then {} else families s - {family}),
          stale_timer := (if family = UNSPEC \<or> families s - {family} = {} then [0]
                          else stale_timer s)\<rparr>)
   \<and> ProcessEORMarkerReceived family (ProcessEORMarkerReceived family s) =
       ProcessEORMarkerReceived family s"
proof (intro conjI impI)
  assume "\<not> ((state s = GR_TIMER \<or> state s = LLGR_TIMER) \<and> families s \<noteq> {})"
  then show "ProcessEORMarkerReceived family s = s"
    by (auto simp: ProcessEORMarkerReceived_def)
next
  assume "(state s = GR_TIMER \<or> state s = LLGR_TIMER) \<and> families s \<noteq> {}"
  then show "ProcessEORMarkerReceived family s =
        s\<lparr>families := (if family = UNSPEC then {} else families s - {family}),
          stale_timer := (if family = UNSPEC \<or> families s - {family} = {} then [0]
                          else stale_timer s)\<rparr>"
    by (auto simp: ProcessEORMarkerReceived_def StartRestartTimer_def Timer_Cancel_def
                   Timer_Start_def Let_def)
next
  show "ProcessEORMarkerReceived family (ProcessEORMarkerReceived family s) =
       ProcessEORMarkerReceived family s"
    by (auto simp: ProcessEORMarkerReceived_def StartRestartTimer_def Timer_Cancel_def
                   Timer_Start_def Let_def)
qed

theorem ProcessEORMarkerReceived_effect_witness:
  "ProcessEORMarkerReceived INET PeerCloseManager_new = PeerCloseManager_new
   \<and> ProcessEORMarkerReceived INET gr_wait = gr_wait\<lparr>families := {INET6}\<rparr>
   \<and> ProcessEORMarkerReceived INET (ProcessEORMarkerReceived INET gr_wait) =
       gr_wait\<lparr>families := {INET6}\<rparr>
   \<and> ProcessEORMarkerReceived UNSPEC gr_wait = gr_wait\<lparr>families := {}, stale_timer := [0]\<rparr>"
proof -
  note all = ProcessEORMarkerReceived_effect
  have h0: "\<not> ((state PeerCloseManager_new = GR_TIMER \<or> state PeerCloseManager_new = LLGR_TIMER)
      \<and> families PeerCloseManager_new \<noteq> {})"
    by (simp add: PeerCloseManager_new_def)
  have h1: "(state gr_wait = GR_TIMER \<or> state gr_wait = LLGR_TIMER) \<and> families gr_wait \<noteq> {}"
    by (simp add: gr_wait_def)
  have a: "ProcessEORMarkerReceived INET PeerCloseManager_new = PeerCloseManager_new"
    by (rule all [THEN conjunct1, rule_format, OF h0])
  have b: "ProcessEORMarkerReceived INET gr_wait = gr_wait\<lparr>families := {INET6}\<rparr>"
    by (subst all [THEN conjunct2, THEN conjunct1, rule_format, OF h1])
       (simp add: gr_wait_def insert_Diff_if)
  have c: "ProcessEORMarkerReceived INET (ProcessEORMarkerReceived INET gr_wait) =
       gr_wait\<lparr>families := {INET6}\<rparr>"
    by (subst all [THEN conjunct2, THEN conjunct2]) (rule b)
  have d: "ProcessEORMarkerReceived UNSPEC gr_wait =
       gr_wait\<lparr>families := {}, stale_timer := [0]\<rparr>"
    by (subst all [THEN conjunct2, THEN conjunct1, rule_format, OF h1]) simp
  from a b c d show ?thesis by blast
qed

subsection \<open>The guard of the walk-done callback\<close>

text \<open>
  C4. The first assertion of \<^verbatim>\<open>MembershipRequestCallbackInternal\<close> does not confine
  the state to \<open>STALE\<close>, \<open>LLGR_STALE\<close>, \<open>SWEEP\<close>, \<open>DELETE\<close>: its second disjunct is
  the enumerator itself, not a comparison, so it holds in every state. In \<open>NONE\<close>,
  \<open>GR_TIMER\<close> and \<open>LLGR_TIMER\<close> (membership in use, nothing pending, no close latched)
  the callback does not abort: it clears the membership state and arms the sweep timer.
\<close>

theorem walk_done_guard_passes:
  assumes "state s = NONE \<or> state s = GR_TIMER \<or> state s = LLGR_TIMER"
    and "membership_state s = MEMBERSHIP_IN_USE"
    and "membership_mgr env = Some mgr" and "\<not> IsPending mgr"
    and "\<not> close_again s"
  shows "MembershipRequestCallback env s =
           Inr (True, TriggerSweepStateActions (s\<lparr>membership_state := MEMBERSHIP_NONE\<rparr>))"
  using assms
  by (auto simp: MembershipRequestCallback_def MembershipRequestCallbackInternal.simps)

theorem walk_done_guard_passes_witness:
  "MembershipRequestCallback env_gr (gr_wait\<lparr>membership_state := MEMBERSHIP_IN_USE\<rparr>) =
     Inr (True, gr_wait\<lparr>membership_state := MEMBERSHIP_NONE, sweep_timer := [0]\<rparr>)"
proof -
  let ?s = "gr_wait\<lparr>membership_state := MEMBERSHIP_IN_USE\<rparr>"
  have 1: "state ?s = NONE \<or> state ?s = GR_TIMER \<or> state ?s = LLGR_TIMER"
    by (simp add: gr_wait_def)
  have 2: "membership_state ?s = MEMBERSHIP_IN_USE" by simp
  have 3: "membership_mgr env_gr = Some mgr_empty" by (simp add: env_gr_def)
  have 4: "\<not> IsPending mgr_empty" by (simp add: mgr_empty_def)
  have 5: "\<not> close_again ?s" by (simp add: gr_wait_def PeerCloseManager_new_def)
  show ?thesis
    by (subst walk_done_guard_passes [OF 1 2 3 4 5])
       (simp add: TriggerSweepStateActions_def Timer_Cancel_def Timer_Start_def)
qed

text \<open>
  Such a state is met through the entry points: a membership request while the manager
  waits in \<open>GR_TIMER\<close>, for a peer with no table, runs the callback inline; the callback
  passes its guard and arms the sweep timer, and it is the sweep action that then fails
  its own assertion.
\<close>

lemma request_in_timer_run:
  "run_events request_in_timer PeerCloseManager_new = Inr request_in_timer_result
   \<and> handle_event env_gr EvSweepTimerFired request_in_timer_result = Inl AssertFailed"
  by (simp add: request_in_timer_def request_in_timer_result_def MembershipRequest_def
        ProcessSweepStateActions_def TriggerSweepStateActions_def run_unfold)

subsection \<open>A null membership manager\<close>

text \<open>
  C9 does not hold as it is stated. With the membership manager usable but its handle
  null, a membership request is not what it is over an empty set of tables: shown on the manager that has just entered
  \<open>STALE\<close>, where the empty set completes the walk inline and moves on to \<open>GR_TIMER\<close>,
  while the null handle leaves the state in \<open>STALE\<close> with the membership state in use.
\<close>

theorem null_manager_counterexample:
  "MembershipRequestInternal env_null_mgr stale_begun =
     Inr (stale_begun\<lparr>membership_state := MEMBERSHIP_IN_USE\<rparr>)
   \<and> MembershipRequestInternal env_gr stale_begun =
     Inr (stale_begun\<lparr>membership_state := MEMBERSHIP_NONE, state := GR_TIMER,
            families := {INET, INET6}, stale_timer := [120000],
            stats := (stats stale_begun)\<lparr>gr_timer := 1\<rparr>,
            calls := [GracefulRestartStale, PeerCloseComplete]\<rparr>)
   \<and> MembershipRequestInternal env_null_mgr stale_begun \<noteq>
       MembershipRequestInternal env_gr stale_begun"
proof -
  have a: "MembershipRequestInternal env_null_mgr stale_begun =
     Inr (stale_begun\<lparr>membership_state := MEMBERSHIP_IN_USE\<rparr>)"
    by (simp add: MembershipRequestInternal.simps env_null_mgr_def env_gr_def
          stale_begun_def PeerCloseManager_new_def)
  have b: "MembershipRequestInternal env_gr stale_begun =
     Inr (stale_begun\<lparr>membership_state := MEMBERSHIP_NONE, state := GR_TIMER,
            families := {INET, INET6}, stale_timer := [120000],
            stats := (stats stale_begun)\<lparr>gr_timer := 1\<rparr>,
            calls := [GracefulRestartStale, PeerCloseComplete]\<rparr>)"
    by (simp add: MembershipRequestInternal.simps MembershipRequestCallbackInternal.simps
          env_gr_def mgr_empty_def stale_begun_def PeerCloseManager_new_def
          MOVE_TO_STATE_def do_call_def StartRestartTimer_def Timer_Cancel_def Timer_Start_def
          restart_time_def word_sless_alt)
  have c: "MembershipRequestInternal env_null_mgr stale_begun \<noteq>
       MembershipRequestInternal env_gr stale_begun"
    unfolding a b by (simp add: stale_begun_def PeerCloseManager_new_def)
  from a b c show ?thesis by blast
qed

text \<open>
  C9, as the code has it. When the membership manager is usable and its handle is null,
  \<^verbatim>\<open>MembershipRequestInternal\<close> sets the membership state to in-use and returns: no
  table is asked for, no call is made, no walk-done callback runs and the close state
  does not change.
\<close>

theorem null_manager_skips:
  assumes "membership_state s \<noteq> MEMBERSHIP_IN_USE"
    and "CanUseMembershipManager env" and "membership_mgr env = None"
  shows "MembershipRequestInternal env s = Inr (s\<lparr>membership_state := MEMBERSHIP_IN_USE\<rparr>)"
  using assms by (simp add: MembershipRequestInternal.simps)

theorem null_manager_skips_witness:
  "MembershipRequestInternal env_null_mgr stale_begun =
     Inr (stale_begun\<lparr>membership_state := MEMBERSHIP_IN_USE\<rparr>)"
proof -
  have 1: "membership_state stale_begun \<noteq> MEMBERSHIP_IN_USE"
    by (simp add: stale_begun_def PeerCloseManager_new_def)
  have 2: "CanUseMembershipManager env_null_mgr" by (simp add: env_null_mgr_def env_gr_def)
  have 3: "membership_mgr env_null_mgr = None" by (simp add: env_null_mgr_def)
  show ?thesis by (rule null_manager_skips [OF 1 2 3])
qed

subsection \<open>A non-graceful close while a close is latched\<close>

lemma CloseComplete_restart_non_graceful:
  assumes "close_again s" and "non_graceful s" and "state s \<noteq> NONE"
  shows "CloseComplete env s =
     MembershipRequestInternal env
       (s\<lparr>state := DELETE, stale_timer := [], sweep_timer := [], families := {},
          close_again := False,
          stats := (stats s)\<lparr>init := init (stats s) + 1, close := close (stats s) + 1,
                                deletes := deletes (stats s) + 1\<rparr>,
          calls := calls s @ [CustomClose]\<rparr>)"
  using assms
  by (cases s)
     (simp add: CloseComplete.simps CloseInternal.simps ProcessClosure.simps
        ProcessClosure_switch_def MOVE_TO_STATE_def do_call_def Timer_Cancel_def)

lemma walk_done_deletes_same:
  assumes "\<not> close_again s" and "MembershipRequestCallbackInternal env s = Inr r"
  shows "deletes (stats (snd r)) = deletes (stats s)"
  using assms
  by (auto simp: MembershipRequestCallbackInternal.simps MOVE_TO_STATE_def do_call_def
                 StartRestartTimer_def TriggerSweepStateActions_def Let_def
           split: if_splits option.splits)

lemma request_deletes_same:
  assumes "\<not> close_again s" and "MembershipRequestInternal env s = Inr s'"
  shows "deletes (stats s') = deletes (stats s)"
  using assms
  by (auto simp: MembershipRequestInternal.simps Let_def
           split: if_splits option.splits sum.splits
           dest!: MembershipRequest_tables_only_calls
           dest: walk_done_deletes_same [rotated])

lemma latch_served_deletes:
  assumes "close_again s" and "non_graceful s" and "state s \<noteq> NONE"
    and "CloseComplete env s = Inr s'"
  shows "deletes (stats s') = deletes (stats s) + 1"
proof -
  let ?x = "s\<lparr>state := DELETE, stale_timer := [], sweep_timer := [], families := {},
          close_again := False,
          stats := (stats s)\<lparr>init := init (stats s) + 1, close := close (stats s) + 1,
                                deletes := deletes (stats s) + 1\<rparr>,
          calls := calls s @ [CustomClose]\<rparr>"
  from assms(4) have "MembershipRequestInternal env ?x = Inr s'"
    by (simp add: CloseComplete_restart_non_graceful [OF assms(1-3)])
  from request_deletes_same [OF _ this] show ?thesis by simp
qed

lemma latch_kept_or_served:
  assumes l: "close_again s" "non_graceful s"
    and st: "state s = STALE \<or> state s = LLGR_STALE \<or> state s = SWEEP"
    and h: "handle_event env ev s = Inr s'"
  shows "(close_again s' \<and> non_graceful s' \<and> state s' = state s) \<or>
         deletes (stats s') = deletes (stats s) + 1"
proof (cases ev)
  case (EvClose ng)
  with h l have "s' = s\<lparr>non_graceful := True,
                       stats := (stats s)\<lparr>close := close (stats s) + 1\<rparr>\<rparr>"
    by (simp add: Close_def CloseInternal.simps)
  with l show ?thesis by simp
next
  case (EvEorReceived f)
  with h st have "s' = s" by (auto simp: ProcessEORMarkerReceived_def)
  with l show ?thesis by simp
next
  case EvRestartTimerFired
  with h st have "s' = s" by (auto simp: RestartTimerCallback_def)
  with l show ?thesis by simp
next
  case EvSweepTimerFired
  let ?x = "do_call GracefulRestartSweep s"
  from h EvSweepTimerFired have c: "CloseComplete env ?x = Inr s'"
    by (cases "CloseComplete env ?x")
       (simp_all add: ProcessSweepStateActions_def split: if_splits)
  have "close_again ?x" "non_graceful ?x" "state ?x \<noteq> NONE"
    using l st by (auto simp: do_call_def)
  from latch_served_deletes [OF this c] show ?thesis by (simp add: do_call_def)
next
  case EvMembershipRequest
  with h have m: "MembershipRequestInternal env s = Inr s'" by (simp add: MembershipRequest_def)
  show ?thesis
  proof (cases "membership_state s \<noteq> MEMBERSHIP_IN_USE \<and> CanUseMembershipManager env \<and>
                (\<exists>mgr. membership_mgr env = Some mgr \<and> GetRegisteredRibs mgr = [] \<and>
                       \<not> IsPending mgr)")
    case True
    then obtain mgr where mgr: "membership_mgr env = Some mgr" "GetRegisteredRibs mgr = []"
        "\<not> IsPending mgr" by blast
    let ?x = "s\<lparr>membership_state := MEMBERSHIP_NONE\<rparr>"
    from m True mgr l st have c: "CloseComplete env ?x = Inr s'"
      by (cases "CloseComplete env ?x")
         (auto simp: MembershipRequestInternal.simps MembershipRequestCallbackInternal.simps)
    have "close_again ?x" "non_graceful ?x" "state ?x \<noteq> NONE" using l st by auto
    from latch_served_deletes [OF this c] show ?thesis by simp
  next
    case False
    with m have "close_again s' = close_again s \<and> non_graceful s' = non_graceful s \<and>
        state s' = state s"
      by (auto simp: MembershipRequestInternal.simps MembershipRequestCallbackInternal.simps
                     Let_def
               split: if_splits option.splits
               dest!: MembershipRequest_tables_only_calls)
    with l show ?thesis by simp
  qed
next
  case EvMembershipWalkDone
  with h obtain r where r: "MembershipRequestCallbackInternal env s = Inr r" "snd r = s'"
    by (cases "MembershipRequestCallbackInternal env s")
       (simp_all add: MembershipRequestCallback_def)
  show ?thesis
  proof (cases "\<exists>mgr. membership_mgr env = Some mgr \<and> \<not> IsPending mgr")
    case True
    let ?x = "s\<lparr>membership_state := MEMBERSHIP_NONE\<rparr>"
    from r True l st have c: "CloseComplete env ?x = Inr s'"
      by (cases "CloseComplete env ?x")
         (auto simp: MembershipRequestCallbackInternal.simps split: if_splits)
    have "close_again ?x" "non_graceful ?x" "state ?x \<noteq> NONE" using l st by auto
    from latch_served_deletes [OF this c] show ?thesis by simp
  next
    case False
    with r have "s' = s"
      by (auto simp: MembershipRequestCallbackInternal.simps split: if_splits option.splits)
    with l show ?thesis by simp
  qed
qed

lemma latch_served_run:
  "handle_event env_gr EvMembershipWalkDone stale_latched_hard = Inr latch_served"
  by (simp add: stale_latched_hard_def stale_latched_def latch_served_def
        MembershipRequestCallback_def
        CloseInternal.simps CloseComplete.simps ProcessClosure.simps
        MembershipRequestInternal.simps MembershipRequestCallbackInternal.simps
        ProcessClosure_switch_def env_gr_def mgr_empty_def PeerCloseManager_new_def
        MOVE_TO_STATE_def do_call_def Timer_Cancel_def)

lemma latch_in_DELETE_run:
  "run_events latch_in_DELETE PeerCloseManager_new = Inr latch_in_DELETE_result"
  by (simp add: latch_in_DELETE_def latch_in_DELETE_result_def env_table_def
        env_table_gone_def mgr_table_def MembershipRequestCallback_def run_unfold)

lemma latch_dropped_run:
  "handle_event env_table EvMembershipWalkDone latch_in_DELETE_result = Inr latch_dropped"
  by (simp add: latch_dropped_def latch_in_DELETE_result_def env_table_def
        mgr_table_def MembershipRequestCallback_def run_unfold)

lemma fresh_cycle_run:
  "handle_event env_table (EvClose False) latch_dropped = Inr fresh_cycle"
  by (simp add: fresh_cycle_def latch_dropped_def latch_in_DELETE_result_def env_table_def
        mgr_table_def run_unfold)

text \<open>
  C10, against the sentence as the spec has it. A non-graceful close that arrives while
  a close is latched in \<open>DELETE\<close> is recorded in the flag like any other, but it is
  lost: when the walk of \<open>DELETE\<close> is done the callback clears both \<open>close_again\<close> and
  \<open>non_graceful\<close> and moves to \<open>NONE\<close>, no cycle is started (\<open>deletes\<close> stays as it
  was), and the next graceful close starts a cycle in \<open>STALE\<close>. The manager is brought
  there from its initial state by five events.
\<close>

theorem latch_in_DELETE_counterexample:
  "run_events latch_in_DELETE PeerCloseManager_new = Inr latch_in_DELETE_result
   \<and> state latch_in_DELETE_result = DELETE
   \<and> close_again latch_in_DELETE_result = True
   \<and> non_graceful latch_in_DELETE_result = True
   \<and> handle_event env_table EvMembershipWalkDone latch_in_DELETE_result = Inr latch_dropped
   \<and> state latch_dropped = NONE
   \<and> close_again latch_dropped = False
   \<and> non_graceful latch_dropped = False
   \<and> deletes (stats latch_dropped) = deletes (stats latch_in_DELETE_result)
   \<and> handle_event env_table (EvClose False) latch_dropped = Inr fresh_cycle
   \<and> state fresh_cycle = STALE
   \<and> deletes (stats fresh_cycle) = deletes (stats latch_in_DELETE_result)"
  by (simp only: latch_in_DELETE_run latch_dropped_run fresh_cycle_run)
     (simp add: fresh_cycle_def latch_dropped_def latch_in_DELETE_result_def)

lemma walk_done_serves_latch:
  assumes "state s = STALE \<or> state s = LLGR_STALE \<or> state s = SWEEP"
    and "close_again s" and "non_graceful s"
    and "membership_state s = MEMBERSHIP_IN_USE"
    and "membership_mgr env = Some mgr" and "\<not> IsPending mgr"
  shows "MembershipRequestCallback env s =
     (case MembershipRequestInternal env
             (s\<lparr>membership_state := MEMBERSHIP_NONE, state := DELETE, stale_timer := [],
                sweep_timer := [], families := {}, close_again := False,
                stats := (stats s)\<lparr>init := init (stats s) + 1,
                                      close := close (stats s) + 1,
                                      deletes := deletes (stats s) + 1\<rparr>,
                calls := calls s @ [CustomClose]\<rparr>) of
        Inl e \<Rightarrow> Inl e
      | Inr s2 \<Rightarrow> Inr (True, s2))"
proof -
  let ?x = "s\<lparr>membership_state := MEMBERSHIP_NONE\<rparr>"
  have x: "close_again ?x" "non_graceful ?x" "state ?x \<noteq> NONE" using assms by auto
  from assms have "MembershipRequestCallback env s =
      (case CloseComplete env ?x of Inl e \<Rightarrow> Inl e | Inr s2 \<Rightarrow> Inr (True, s2))"
    by (auto simp: MembershipRequestCallback_def MembershipRequestCallbackInternal.simps)
  then show ?thesis
    by (simp add: CloseComplete_restart_non_graceful [OF x])
qed

lemma walk_done_DELETE_clears:
  assumes "state s = DELETE" and "membership_state s = MEMBERSHIP_IN_USE"
    and "membership_mgr env = Some mgr" and "\<not> IsPending mgr"
  shows "MembershipRequestCallback env s =
     Inr (True,
          s\<lparr>membership_state := MEMBERSHIP_NONE, state := NONE,
            calls := calls s @ [PeerDelete], gr_elapsed := 0, llgr_elapsed := 0,
            stats := (stats s)\<lparr>init := init (stats s) + 1\<rparr>,
            close_again := False, non_graceful := False\<rparr>)"
  using assms
  by (simp add: MembershipRequestCallback_def MembershipRequestCallbackInternal.simps
        MOVE_TO_STATE_def do_call_def)

text \<open>
  C10, as the code has it. \<^verbatim>\<open>Close\<close> merges its argument into the sticky
  \<open>non_graceful\<close> flag before \<^verbatim>\<open>CloseInternal\<close> looks at \<open>close_again\<close>, on every call.
  So a call that is otherwise ignored, because a close is already latched, still records
  the flag (and counts the call) and leaves the latch and the state as they are. While
  the walk of \<open>STALE\<close>, \<open>LLGR_STALE\<close> or \<open>SWEEP\<close> is under way, every event that returns
  either keeps the latch, the flag and the state, or serves the latch and increments
  \<open>deletes\<close>; the walk-done callback of these states serves it: the result is that of the
  membership request in \<open>DELETE\<close>, with \<open>deletes\<close> incremented and \<^verbatim>\<open>CustomClose\<close>
  called. Whenever \<^verbatim>\<open>CloseComplete\<close> serves a latch with the flag set, the new cycle
  enters \<open>DELETE\<close>, whatever the peer answers about graceful restart. In \<open>DELETE\<close> the
  walk-done callback serves no latch: it ends in \<open>NONE\<close> with \<open>close_again\<close> and
  \<open>non_graceful\<close> cleared and starts no new cycle.
\<close>

theorem Close_non_graceful_latched:
  "Close env ng s = CloseInternal env (s\<lparr>non_graceful := (non_graceful s \<or> ng)\<rparr>)
   \<and> (close_again s \<longrightarrow>
        Close env ng s =
          Inr (s\<lparr>non_graceful := (non_graceful s \<or> ng),
                 stats := (stats s)\<lparr>close := close (stats s) + 1\<rparr>\<rparr>))
   \<and> (close_again s \<and> Close env True s = Inr s1 \<longrightarrow>
        non_graceful s1 \<and> close_again s1 \<and> state s1 = state s)
   \<and> (close_again s \<and> non_graceful s \<and>
       (state s = STALE \<or> state s = LLGR_STALE \<or> state s = SWEEP) \<and>
       handle_event env ev s = Inr s' \<longrightarrow>
        (close_again s' \<and> non_graceful s' \<and> state s' = state s) \<or>
        deletes (stats s') = deletes (stats s) + 1)
   \<and> (close_again s \<and> non_graceful s \<and>
       (state s = STALE \<or> state s = LLGR_STALE \<or> state s = SWEEP) \<and>
       membership_state s = MEMBERSHIP_IN_USE \<and>
       membership_mgr env = Some mgr \<and> \<not> IsPending mgr \<longrightarrow>
        MembershipRequestCallback env s =
          (case MembershipRequestInternal env
                  (s\<lparr>membership_state := MEMBERSHIP_NONE, state := DELETE,
                     stale_timer := [], sweep_timer := [], families := {},
                     close_again := False,
                     stats := (stats s)\<lparr>init := init (stats s) + 1,
                                           close := close (stats s) + 1,
                                           deletes := deletes (stats s) + 1\<rparr>,
                     calls := calls s @ [CustomClose]\<rparr>) of
             Inl e \<Rightarrow> Inl e
           | Inr s2 \<Rightarrow> Inr (True, s2)))
   \<and> (close_again s \<and> non_graceful s \<and> state s \<noteq> NONE \<longrightarrow>
        CloseComplete env s =
          MembershipRequestInternal env
            (s\<lparr>state := DELETE, stale_timer := [], sweep_timer := [], families := {},
               close_again := False,
               stats := (stats s)\<lparr>init := init (stats s) + 1,
                                     close := close (stats s) + 1,
                                     deletes := deletes (stats s) + 1\<rparr>,
               calls := calls s @ [CustomClose]\<rparr>))
   \<and> (state s = DELETE \<and> membership_state s = MEMBERSHIP_IN_USE \<and>
       membership_mgr env = Some mgr \<and> \<not> IsPending mgr \<longrightarrow>
        MembershipRequestCallback env s =
          Inr (True,
               s\<lparr>membership_state := MEMBERSHIP_NONE, state := NONE,
                 calls := calls s @ [PeerDelete], gr_elapsed := 0, llgr_elapsed := 0,
                 stats := (stats s)\<lparr>init := init (stats s) + 1\<rparr>,
                 close_again := False, non_graceful := False\<rparr>))"
proof -
  have 1: "Close env ng s = CloseInternal env (s\<lparr>non_graceful := (non_graceful s \<or> ng)\<rparr>)"
    by (simp add: Close_def)
  have 2: "close_again s \<longrightarrow>
        Close env ng s =
          Inr (s\<lparr>non_graceful := (non_graceful s \<or> ng),
                 stats := (stats s)\<lparr>close := close (stats s) + 1\<rparr>\<rparr>)"
    by (simp add: Close_def CloseInternal.simps)
  have 3: "close_again s \<and> Close env True s = Inr s1 \<longrightarrow>
        non_graceful s1 \<and> close_again s1 \<and> state s1 = state s"
  proof
    assume a: "close_again s \<and> Close env True s = Inr s1"
    then have ca: "close_again s" and c: "Close env True s = Inr s1" by simp_all
    from ca c have s1: "s1 = s\<lparr>non_graceful := True,
                   stats := (stats s)\<lparr>close := close (stats s) + 1\<rparr>\<rparr>"
      by (simp add: Close_def CloseInternal.simps)
    with ca show "non_graceful s1 \<and> close_again s1 \<and> state s1 = state s" by simp
  qed
  have 4: "close_again s \<and> non_graceful s \<and>
       (state s = STALE \<or> state s = LLGR_STALE \<or> state s = SWEEP) \<and>
       handle_event env ev s = Inr s' \<longrightarrow>
        (close_again s' \<and> non_graceful s' \<and> state s' = state s) \<or>
        deletes (stats s') = deletes (stats s) + 1"
    using latch_kept_or_served [of s env ev s'] by blast
  have 5: "close_again s \<and> non_graceful s \<and>
       (state s = STALE \<or> state s = LLGR_STALE \<or> state s = SWEEP) \<and>
       membership_state s = MEMBERSHIP_IN_USE \<and>
       membership_mgr env = Some mgr \<and> \<not> IsPending mgr \<longrightarrow>
        MembershipRequestCallback env s =
          (case MembershipRequestInternal env
                  (s\<lparr>membership_state := MEMBERSHIP_NONE, state := DELETE,
                     stale_timer := [], sweep_timer := [], families := {},
                     close_again := False,
                     stats := (stats s)\<lparr>init := init (stats s) + 1,
                                           close := close (stats s) + 1,
                                           deletes := deletes (stats s) + 1\<rparr>,
                     calls := calls s @ [CustomClose]\<rparr>) of
             Inl e \<Rightarrow> Inl e
           | Inr s2 \<Rightarrow> Inr (True, s2))"
    using walk_done_serves_latch [of s env mgr] by blast
  have 6: "close_again s \<and> non_graceful s \<and> state s \<noteq> NONE \<longrightarrow>
        CloseComplete env s =
          MembershipRequestInternal env
            (s\<lparr>state := DELETE, stale_timer := [], sweep_timer := [], families := {},
               close_again := False,
               stats := (stats s)\<lparr>init := init (stats s) + 1,
                                     close := close (stats s) + 1,
                                     deletes := deletes (stats s) + 1\<rparr>,
               calls := calls s @ [CustomClose]\<rparr>)"
    by (simp add: CloseComplete_restart_non_graceful)
  have 7: "state s = DELETE \<and> membership_state s = MEMBERSHIP_IN_USE \<and>
       membership_mgr env = Some mgr \<and> \<not> IsPending mgr \<longrightarrow>
        MembershipRequestCallback env s =
          Inr (True,
               s\<lparr>membership_state := MEMBERSHIP_NONE, state := NONE,
                 calls := calls s @ [PeerDelete], gr_elapsed := 0, llgr_elapsed := 0,
                 stats := (stats s)\<lparr>init := init (stats s) + 1\<rparr>,
                 close_again := False, non_graceful := False\<rparr>)"
    using walk_done_DELETE_clears [of s env mgr] by blast
  from 1 2 3 4 5 6 7 show ?thesis by blast
qed

theorem Close_non_graceful_latched_witness:
  "Close env_gr True stale_latched = Inr stale_latched_hard
   \<and> deletes (stats latch_served) = deletes (stats stale_latched_hard) + 1
   \<and> MembershipRequestCallback env_gr stale_latched_hard = Inr (True, latch_served)
   \<and> CloseComplete env_wait (stale_latched_hard\<lparr>membership_state := MEMBERSHIP_NONE\<rparr>) =
       Inr (stale_latched\<lparr>non_graceful := True, state := DELETE, close_again := False,
              membership_state := MEMBERSHIP_IN_WAIT,
              stats := (stats stale_latched)\<lparr>init := 2, close := 4, deletes := 1\<rparr>,
              calls := [GracefulRestartStale, WalkRibIn 7, CustomClose]\<rparr>)
   \<and> MembershipRequestCallback env_table latch_in_DELETE_result = Inr (True, latch_dropped)"
proof -
  let ?s2 = "stale_latched_hard\<lparr>membership_state := MEMBERSHIP_NONE\<rparr>"
  have ca: "close_again stale_latched" by (simp add: stale_latched_def)
  have a: "Close env_gr True stale_latched = Inr stale_latched_hard"
    by (subst Close_non_graceful_latched [where s = stale_latched,
              THEN conjunct2, THEN conjunct1, rule_format, OF ca])
       (simp add: stale_latched_hard_def stale_latched_def PeerCloseManager_new_def)
  have l: "close_again stale_latched_hard \<and> non_graceful stale_latched_hard \<and>
       (state stale_latched_hard = STALE \<or> state stale_latched_hard = LLGR_STALE \<or>
        state stale_latched_hard = SWEEP) \<and>
       handle_event env_gr EvMembershipWalkDone stale_latched_hard = Inr latch_served"
    by (simp only: latch_served_run) (simp add: stale_latched_hard_def stale_latched_def)
  from Close_non_graceful_latched [where s = stale_latched_hard and env = env_gr
         and ev = EvMembershipWalkDone and s' = latch_served,
         THEN conjunct2, THEN conjunct2, THEN conjunct2, THEN conjunct1, rule_format, OF l]
  have b: "deletes (stats latch_served) = deletes (stats stale_latched_hard) + 1"
    by (simp add: latch_served_def PeerCloseManager_new_def)
  have w: "close_again stale_latched_hard \<and> non_graceful stale_latched_hard \<and>
       (state stale_latched_hard = STALE \<or> state stale_latched_hard = LLGR_STALE \<or>
        state stale_latched_hard = SWEEP) \<and>
       membership_state stale_latched_hard = MEMBERSHIP_IN_USE \<and>
       membership_mgr env_gr = Some mgr_empty \<and> \<not> IsPending mgr_empty"
    by (simp add: stale_latched_hard_def stale_latched_def env_gr_def mgr_empty_def)
  have c: "MembershipRequestCallback env_gr stale_latched_hard = Inr (True, latch_served)"
    by (subst Close_non_graceful_latched [where s = stale_latched_hard and env = env_gr
              and mgr = mgr_empty,
              THEN conjunct2, THEN conjunct2, THEN conjunct2, THEN conjunct2, THEN conjunct1,
              rule_format, OF w])
       (simp add: stale_latched_hard_def stale_latched_def latch_served_def
                  MembershipRequestInternal.simps MembershipRequestCallbackInternal.simps
                  env_gr_def mgr_empty_def PeerCloseManager_new_def MOVE_TO_STATE_def
                  do_call_def)
  have h: "close_again ?s2 \<and> non_graceful ?s2 \<and> state ?s2 \<noteq> NONE"
    by (simp add: stale_latched_hard_def stale_latched_def)
  have d: "CloseComplete env_wait ?s2 =
       Inr (stale_latched\<lparr>non_graceful := True, state := DELETE, close_again := False,
              membership_state := MEMBERSHIP_IN_WAIT,
              stats := (stats stale_latched)\<lparr>init := 2, close := 4, deletes := 1\<rparr>,
              calls := [GracefulRestartStale, WalkRibIn 7, CustomClose]\<rparr>)"
    by (subst Close_non_graceful_latched [where s = "?s2" and env = env_wait,
              THEN conjunct2, THEN conjunct2, THEN conjunct2, THEN conjunct2, THEN conjunct2,
              THEN conjunct1, rule_format, OF h])
       (simp add: MembershipRequestInternal.simps env_wait_def env_gr_def
                  stale_latched_hard_def stale_latched_def PeerCloseManager_new_def)
  have x: "state latch_in_DELETE_result = DELETE \<and>
       membership_state latch_in_DELETE_result = MEMBERSHIP_IN_USE \<and>
       membership_mgr env_table = Some mgr_table \<and> \<not> IsPending mgr_table"
    by (simp add: latch_in_DELETE_result_def env_table_def mgr_table_def)
  have e: "MembershipRequestCallback env_table latch_in_DELETE_result =
       Inr (True, latch_dropped)"
    by (subst Close_non_graceful_latched [where s = latch_in_DELETE_result
              and env = env_table and mgr = mgr_table,
              THEN conjunct2, THEN conjunct2, THEN conjunct2, THEN conjunct2, THEN conjunct2,
              THEN conjunct2, rule_format, OF x])
       (simp add: latch_dropped_def latch_in_DELETE_result_def PeerCloseManager_new_def)
  from a b c d e show ?thesis by blast
qed

subsection \<open>Restart delays\<close>

text \<open>
  Where neither the multiplication nor the subtraction leaves the range of a 32-bit
  \<^verbatim>\<open>int\<close>, the delay computed is the larger of 0 and the configured time in
  milliseconds minus the elapsed time.
\<close>

lemma sint_restart_time:
  fixes seconds elapsed :: int32
  assumes ms: "- (2 ^ 31) \<le> sint seconds * 1000" "sint seconds * 1000 < 2 ^ 31"
    and diff: "- (2 ^ 31) \<le> sint seconds * 1000 - sint elapsed"
              "sint seconds * 1000 - sint elapsed < 2 ^ 31"
  shows "sint (restart_time seconds elapsed) = max 0 (sint seconds * 1000 - sint elapsed)"
proof -
  have k: "sint (1000 :: int32) = 1000" by simp
  have m: "sint (seconds * 1000) = sint seconds * 1000"
    using ms by (simp add: sint_word_mult k signed_take_bit_int_eq_self)
  have d: "sint (seconds * 1000 - elapsed) = sint seconds * 1000 - sint elapsed"
    using diff by (simp add: sint_word_diff m signed_take_bit_int_eq_self)
  show ?thesis
    by (simp add: restart_time_def Let_def word_sless_alt d)
qed

subsection \<open>A close during GR_TIMER\<close>

lemma Close_GR_TIMER:
  assumes "state s = GR_TIMER" and "\<not> close_again s"
  shows "Close env ng s =
     CloseComplete env
       (s\<lparr>non_graceful := (non_graceful s \<or> ng), close_again := True,
          gr_elapsed := gr_elapsed s + GetElapsedTime env,
          stats := (stats s)\<lparr>close := close (stats s) + 1,
                                nested := nested (stats s) + 1\<rparr>\<rparr>)"
  using assms by (cases s) (simp add: Close_def CloseInternal.simps)

lemma Close_GR_TIMER_restart:
  assumes "state s = GR_TIMER" and "\<not> close_again s" and "\<not> non_graceful s"
    and "IsCloseGraceful env"
  shows "Close env False s =
     MembershipRequestInternal env
       (s\<lparr>state := STALE, stale_timer := [], sweep_timer := [], families := {},
          gr_elapsed := gr_elapsed s + GetElapsedTime env,
          stats := (stats s)\<lparr>init := init (stats s) + 1, close := close (stats s) + 2,
                                nested := nested (stats s) + 1,
                                stale := stale (stats s) + 1\<rparr>,
          calls := calls s @ [GracefulRestartStale]\<rparr>)"
  using assms
  apply (cases s)
  subgoal for t1 t2 st ca ng ge le ms fam sts cl
    by (cases sts)
       (simp add: Close_def CloseInternal.simps CloseComplete.simps ProcessClosure.simps
          ProcessClosure_switch_def MOVE_TO_STATE_def do_call_def Timer_Cancel_def)
  done

lemma walk_done_STALE:
  assumes "state s = STALE" and "\<not> close_again s"
    and "membership_state s = MEMBERSHIP_IN_USE"
    and "membership_mgr env = Some mgr" and "\<not> IsPending mgr"
  shows "MembershipRequestCallbackInternal env s =
     Inr (True,
          s\<lparr>membership_state := MEMBERSHIP_NONE, state := GR_TIMER,
            families := GetGracefulRestartFamilies env,
            stale_timer := [restart_time (GetGracefulRestartTime env) (gr_elapsed s)],
            stats := (stats s)\<lparr>gr_timer := gr_timer (stats s) + 1\<rparr>,
            calls := calls s @ [PeerCloseComplete]\<rparr>)"
  using assms
  by (cases s)
     (simp add: MembershipRequestCallbackInternal.simps MOVE_TO_STATE_def do_call_def
        StartRestartTimer_def Timer_Cancel_def Timer_Start_def)

text \<open>
  C6. A \<^verbatim>\<open>Close\<close> in \<open>GR_TIMER\<close> with \<open>close_again\<close> false sets \<open>close_again\<close>, adds
  the restart timer's elapsed time to \<open>gr_elapsed\<close>, increments \<open>nested\<close> and calls
  \<^verbatim>\<open>CloseComplete\<close>. For a graceful close the restarted cycle enters \<open>STALE\<close> with
  the accumulated \<open>gr_elapsed\<close>; and when the walk-done callback moves \<open>STALE\<close> to
  \<open>GR_TIMER\<close>, the restart timer holds one delay, the larger of 0 and the configured
  restart time in milliseconds minus \<open>gr_elapsed\<close> (as long as the 32-bit \<^verbatim>\<open>int\<close>
  arithmetic of the source does not overflow). With 120 s configured and 30000 ms
  elapsed the delay is 90000 ms.
\<close>

theorem nested_close_in_GR_TIMER:
  "(state s = GR_TIMER \<and> \<not> close_again s \<longrightarrow>
      Close env ng s =
        CloseComplete env
          (s\<lparr>non_graceful := (non_graceful s \<or> ng), close_again := True,
             gr_elapsed := gr_elapsed s + GetElapsedTime env,
             stats := (stats s)\<lparr>close := close (stats s) + 1,
                                   nested := nested (stats s) + 1\<rparr>\<rparr>))
   \<and> (state s = GR_TIMER \<and> \<not> close_again s \<and> \<not> non_graceful s \<and> IsCloseGraceful env \<longrightarrow>
      Close env False s =
        MembershipRequestInternal env
          (s\<lparr>state := STALE, stale_timer := [], sweep_timer := [], families := {},
             gr_elapsed := gr_elapsed s + GetElapsedTime env,
             stats := (stats s)\<lparr>init := init (stats s) + 1, close := close (stats s) + 2,
                                   nested := nested (stats s) + 1,
                                   stale := stale (stats s) + 1\<rparr>,
             calls := calls s @ [GracefulRestartStale]\<rparr>))
   \<and> (state s = STALE \<and> \<not> close_again s \<and> membership_state s = MEMBERSHIP_IN_USE \<and>
       membership_mgr env = Some mgr \<and> \<not> IsPending mgr \<longrightarrow>
      MembershipRequestCallback env s =
        Inr (True,
             s\<lparr>membership_state := MEMBERSHIP_NONE, state := GR_TIMER,
               families := GetGracefulRestartFamilies env,
               stale_timer := [restart_time (GetGracefulRestartTime env) (gr_elapsed s)],
               stats := (stats s)\<lparr>gr_timer := gr_timer (stats s) + 1\<rparr>,
               calls := calls s @ [PeerCloseComplete]\<rparr>))
   \<and> (- (2 ^ 31) \<le> sint (GetGracefulRestartTime env) * 1000 \<and>
       sint (GetGracefulRestartTime env) * 1000 < 2 ^ 31 \<and>
       - (2 ^ 31) \<le> sint (GetGracefulRestartTime env) * 1000 - sint (gr_elapsed s) \<and>
       sint (GetGracefulRestartTime env) * 1000 - sint (gr_elapsed s) < 2 ^ 31 \<longrightarrow>
      sint (restart_time (GetGracefulRestartTime env) (gr_elapsed s)) =
        max 0 (sint (GetGracefulRestartTime env) * 1000 - sint (gr_elapsed s)))"
proof (intro conjI impI)
  assume "state s = GR_TIMER \<and> \<not> close_again s"
  then show "Close env ng s =
        CloseComplete env
          (s\<lparr>non_graceful := (non_graceful s \<or> ng), close_again := True,
             gr_elapsed := gr_elapsed s + GetElapsedTime env,
             stats := (stats s)\<lparr>close := close (stats s) + 1,
                                   nested := nested (stats s) + 1\<rparr>\<rparr>)"
    by (simp add: Close_GR_TIMER)
next
  assume "state s = GR_TIMER \<and> \<not> close_again s \<and> \<not> non_graceful s \<and> IsCloseGraceful env"
  then show "Close env False s =
        MembershipRequestInternal env
          (s\<lparr>state := STALE, stale_timer := [], sweep_timer := [], families := {},
             gr_elapsed := gr_elapsed s + GetElapsedTime env,
             stats := (stats s)\<lparr>init := init (stats s) + 1, close := close (stats s) + 2,
                                   nested := nested (stats s) + 1,
                                   stale := stale (stats s) + 1\<rparr>,
             calls := calls s @ [GracefulRestartStale]\<rparr>)"
    by (simp add: Close_GR_TIMER_restart)
next
  assume "state s = STALE \<and> \<not> close_again s \<and> membership_state s = MEMBERSHIP_IN_USE \<and>
       membership_mgr env = Some mgr \<and> \<not> IsPending mgr"
  then show "MembershipRequestCallback env s =
        Inr (True,
             s\<lparr>membership_state := MEMBERSHIP_NONE, state := GR_TIMER,
               families := GetGracefulRestartFamilies env,
               stale_timer := [restart_time (GetGracefulRestartTime env) (gr_elapsed s)],
               stats := (stats s)\<lparr>gr_timer := gr_timer (stats s) + 1\<rparr>,
               calls := calls s @ [PeerCloseComplete]\<rparr>)"
    by (simp add: MembershipRequestCallback_def walk_done_STALE)
next
  assume "- (2 ^ 31) \<le> sint (GetGracefulRestartTime env) * 1000 \<and>
       sint (GetGracefulRestartTime env) * 1000 < 2 ^ 31 \<and>
       - (2 ^ 31) \<le> sint (GetGracefulRestartTime env) * 1000 - sint (gr_elapsed s) \<and>
       sint (GetGracefulRestartTime env) * 1000 - sint (gr_elapsed s) < 2 ^ 31"
  then show "sint (restart_time (GetGracefulRestartTime env) (gr_elapsed s)) =
        max 0 (sint (GetGracefulRestartTime env) * 1000 - sint (gr_elapsed s))"
    by (simp add: sint_restart_time)
qed

theorem nested_close_in_GR_TIMER_witness:
  "Close env_gr False gr_wait =
     Inr (gr_wait\<lparr>gr_elapsed := 30000, stale_timer := [90000],
            stats := (stats gr_wait)\<lparr>init := 2, close := 2, nested := 1, stale := 1,
                                       gr_timer := 1\<rparr>,
            calls := [GracefulRestartStale, PeerCloseComplete]\<rparr>)
   \<and> sint (restart_time (GetGracefulRestartTime env_gr) 30000) = 90000"
proof -
  let ?s = "gr_wait\<lparr>gr_elapsed := 30000\<rparr>"
  have h: "state gr_wait = GR_TIMER \<and> \<not> close_again gr_wait \<and> \<not> non_graceful gr_wait \<and>
      IsCloseGraceful env_gr"
    by (simp add: gr_wait_def PeerCloseManager_new_def env_gr_def)
  note restart = nested_close_in_GR_TIMER [where s = gr_wait and env = env_gr,
      THEN conjunct2, THEN conjunct1, rule_format, OF h]
  have a: "Close env_gr False gr_wait =
     Inr (gr_wait\<lparr>gr_elapsed := 30000, stale_timer := [90000],
            stats := (stats gr_wait)\<lparr>init := 2, close := 2, nested := 1, stale := 1,
                                       gr_timer := 1\<rparr>,
            calls := [GracefulRestartStale, PeerCloseComplete]\<rparr>)"
    unfolding restart
    by (simp add: MembershipRequestInternal.simps MembershipRequestCallbackInternal.simps
          env_gr_def mgr_empty_def gr_wait_def PeerCloseManager_new_def
          MOVE_TO_STATE_def do_call_def StartRestartTimer_def Timer_Cancel_def Timer_Start_def
          restart_time_def word_sless_alt)
  have r: "- (2 ^ 31) \<le> sint (GetGracefulRestartTime env_gr) * 1000 \<and>
       sint (GetGracefulRestartTime env_gr) * 1000 < 2 ^ 31 \<and>
       - (2 ^ 31) \<le> sint (GetGracefulRestartTime env_gr) * 1000 - sint (gr_elapsed ?s) \<and>
       sint (GetGracefulRestartTime env_gr) * 1000 - sint (gr_elapsed ?s) < 2 ^ 31"
    by (simp add: env_gr_def)
  have b: "sint (restart_time (GetGracefulRestartTime env_gr) 30000) = 90000"
    using nested_close_in_GR_TIMER [where s = "?s" and env = env_gr,
      THEN conjunct2, THEN conjunct2, THEN conjunct2, rule_format, OF r]
    by (simp add: env_gr_def)
  from a b show ?thesis by blast
qed

subsection \<open>The two armings on the way to LLGR_TIMER\<close>

lemma StartRestartTimer_twice:
  "StartRestartTimer t2 (StartRestartTimer t1 s) = StartRestartTimer t2 s"
  by (simp add: StartRestartTimer_def Timer_Cancel_def Timer_Start_def)

lemma walk_done_LLGR_STALE:
  assumes "state s = LLGR_STALE" and "\<not> close_again s"
    and "membership_state s = MEMBERSHIP_IN_USE"
    and "membership_mgr env = Some mgr" and "\<not> IsPending mgr"
  shows "MembershipRequestCallbackInternal env s =
     Inr (True,
          s\<lparr>membership_state := MEMBERSHIP_NONE, state := LLGR_TIMER,
            families := GetGracefulRestartFamilies env,
            stale_timer := [restart_time (GetLongLivedGracefulRestartTime env)
                              (llgr_elapsed s)],
            stats := (stats s)\<lparr>llgr_timer := llgr_timer (stats s) + 1\<rparr>\<rparr>)"
  using assms
  apply (cases s)
  subgoal for t1 t2 st ca ng ge le ms fam sts cl
    by (cases sts)
       (simp add: MembershipRequestCallbackInternal.simps MOVE_TO_STATE_def
          StartRestartTimer_def Timer_Cancel_def Timer_Start_def)
  done

lemma single_arming_eq:
  assumes "- (2 ^ 31) \<le> sint (GetLongLivedGracefulRestartTime env) * 1000"
    and "sint (GetLongLivedGracefulRestartTime env) * 1000 < 2 ^ 31"
    and "- (2 ^ 31) \<le> sint (GetLongLivedGracefulRestartTime env) * 1000 - sint (llgr_elapsed s)"
    and "sint (GetLongLivedGracefulRestartTime env) * 1000 - sint (llgr_elapsed s) < 2 ^ 31"
  shows "LLGR_TIMER_single_arming env s =
     s\<lparr>state := LLGR_TIMER, families := GetGracefulRestartFamilies env,
       stale_timer := [restart_time (GetLongLivedGracefulRestartTime env) (llgr_elapsed s)],
       stats := (stats s)\<lparr>llgr_timer := llgr_timer (stats s) + 1\<rparr>\<rparr>"
proof -
  have "word_of_int (max 0 (sint (GetLongLivedGracefulRestartTime env) * 1000 -
                            sint (llgr_elapsed s))) =
        restart_time (GetLongLivedGracefulRestartTime env) (llgr_elapsed s)"
  proof -
    have wsint: "word_of_int (sint w) = w" for w :: int32 by simp
    show ?thesis using sint_restart_time [OF assms] wsint by metis
  qed
  then show ?thesis
    by (simp add: LLGR_TIMER_single_arming_def Timer_Cancel_def Timer_Start_def)
qed

lemma LLGR_TIMER_arming_in_range:
  assumes "state s = LLGR_STALE" and "\<not> close_again s"
    and "membership_state s = MEMBERSHIP_IN_USE"
    and "membership_mgr env = Some mgr" and "\<not> IsPending mgr"
    and "- (2 ^ 31) \<le> sint (GetLongLivedGracefulRestartTime env) * 1000"
    and "sint (GetLongLivedGracefulRestartTime env) * 1000 < 2 ^ 31"
    and "- (2 ^ 31) \<le> sint (GetLongLivedGracefulRestartTime env) * 1000 - sint (llgr_elapsed s)"
    and "sint (GetLongLivedGracefulRestartTime env) * 1000 - sint (llgr_elapsed s) < 2 ^ 31"
  shows "MembershipRequestCallback env s =
        Inr (True, LLGR_TIMER_single_arming env (s\<lparr>membership_state := MEMBERSHIP_NONE\<rparr>))"
    and "sint (restart_time (GetLongLivedGracefulRestartTime env) (llgr_elapsed s)) =
          max 0 (sint (GetLongLivedGracefulRestartTime env) * 1000 - sint (llgr_elapsed s))"
proof -
  from assms have "LLGR_TIMER_single_arming env (s\<lparr>membership_state := MEMBERSHIP_NONE\<rparr>) =
     (s\<lparr>membership_state := MEMBERSHIP_NONE\<rparr>)\<lparr>state := LLGR_TIMER,
       families := GetGracefulRestartFamilies env,
       stale_timer := [restart_time (GetLongLivedGracefulRestartTime env) (llgr_elapsed s)],
       stats := (stats s)\<lparr>llgr_timer := llgr_timer (stats s) + 1\<rparr>\<rparr>"
    using single_arming_eq [of env "s\<lparr>membership_state := MEMBERSHIP_NONE\<rparr>"] by simp
  with assms show "MembershipRequestCallback env s =
        Inr (True, LLGR_TIMER_single_arming env (s\<lparr>membership_state := MEMBERSHIP_NONE\<rparr>))"
    by (simp add: MembershipRequestCallback_def walk_done_LLGR_STALE)
  from assms show "sint (restart_time (GetLongLivedGracefulRestartTime env) (llgr_elapsed s)) =
          max 0 (sint (GetLongLivedGracefulRestartTime env) * 1000 - sint (llgr_elapsed s))"
    by (simp add: sint_restart_time)
qed

text \<open>
  C7. Arming the restart timer cancels what was pending, so arming twice in a row leaves
  what the second arming alone leaves, and that part of the sentence holds of the
  source. The delay does not: the source computes it as
  \<^verbatim>\<open>int time = GetLongLivedGracefulRestartTime() * 1000\<close>, and with a long-lived
  restart time of 2592000 s (thirty days) the product 2592000000 is beyond the 32-bit
  \<^verbatim>\<open>int\<close>; it wraps to a negative number and \<^verbatim>\<open>if (time < 0) time = 0\<close> makes
  the delay 0. On the walk-done callback in \<open>LLGR_STALE\<close> with nothing elapsed, the source
  leaves one expiry pending with delay 0, where the single arming the spec describes
  has the delay \<open>max(0, 2592000000 - 0) = 2592000000\<close> ms: the two results differ.
\<close>

theorem LLGR_TIMER_arming_overflow:
  "StartRestartTimer t2 (StartRestartTimer t1 s) = StartRestartTimer t2 s
   \<and> MembershipRequestCallback env_llgr_30d llgr_fresh =
     Inr (True, llgr_fresh\<lparr>membership_state := MEMBERSHIP_NONE, state := LLGR_TIMER,
                  families := {INET, INET6}, stale_timer := [0],
                  stats := (stats llgr_fresh)\<lparr>llgr_timer := 1\<rparr>\<rparr>)
   \<and> LLGR_TIMER_single_arming env_llgr_30d (llgr_fresh\<lparr>membership_state := MEMBERSHIP_NONE\<rparr>) =
       llgr_fresh\<lparr>membership_state := MEMBERSHIP_NONE, state := LLGR_TIMER,
                  families := {INET, INET6}, stale_timer := [2592000000],
                  stats := (stats llgr_fresh)\<lparr>llgr_timer := 1\<rparr>\<rparr>
   \<and> MembershipRequestCallback env_llgr_30d llgr_fresh \<noteq>
       Inr (True, LLGR_TIMER_single_arming env_llgr_30d
                    (llgr_fresh\<lparr>membership_state := MEMBERSHIP_NONE\<rparr>))
   \<and> max 0 (sint (GetLongLivedGracefulRestartTime env_llgr_30d) * 1000 -
              sint (llgr_elapsed llgr_fresh)) = 2592000000
   \<and> restart_time (GetLongLivedGracefulRestartTime env_llgr_30d) (llgr_elapsed llgr_fresh) = 0"
proof -
  have t: "StartRestartTimer t2 (StartRestartTimer t1 s) = StartRestartTimer t2 s"
    by (rule StartRestartTimer_twice)
  have a: "MembershipRequestCallback env_llgr_30d llgr_fresh =
     Inr (True, llgr_fresh\<lparr>membership_state := MEMBERSHIP_NONE, state := LLGR_TIMER,
                  families := {INET, INET6}, stale_timer := [0],
                  stats := (stats llgr_fresh)\<lparr>llgr_timer := 1\<rparr>\<rparr>)"
    by (simp add: MembershipRequestCallback_def MembershipRequestCallbackInternal.simps
          env_llgr_30d_def env_gr_def mgr_empty_def llgr_fresh_def llgr_begun_def
          PeerCloseManager_new_def MOVE_TO_STATE_def StartRestartTimer_def Timer_Cancel_def
          Timer_Start_def restart_time_def word_sless_alt)
  have b: "LLGR_TIMER_single_arming env_llgr_30d
             (llgr_fresh\<lparr>membership_state := MEMBERSHIP_NONE\<rparr>) =
       llgr_fresh\<lparr>membership_state := MEMBERSHIP_NONE, state := LLGR_TIMER,
                  families := {INET, INET6}, stale_timer := [2592000000],
                  stats := (stats llgr_fresh)\<lparr>llgr_timer := 1\<rparr>\<rparr>"
    by (simp add: LLGR_TIMER_single_arming_def env_llgr_30d_def env_gr_def llgr_fresh_def
          llgr_begun_def PeerCloseManager_new_def Timer_Cancel_def Timer_Start_def)
  have c: "max 0 (sint (GetLongLivedGracefulRestartTime env_llgr_30d) * 1000 -
              sint (llgr_elapsed llgr_fresh)) = 2592000000"
    by (simp add: env_llgr_30d_def llgr_fresh_def)
  have d: "restart_time (GetLongLivedGracefulRestartTime env_llgr_30d)
             (llgr_elapsed llgr_fresh) = 0"
    by (simp add: env_llgr_30d_def llgr_fresh_def restart_time_def word_sless_alt)
  have n: "MembershipRequestCallback env_llgr_30d llgr_fresh \<noteq>
       Inr (True, LLGR_TIMER_single_arming env_llgr_30d
                    (llgr_fresh\<lparr>membership_state := MEMBERSHIP_NONE\<rparr>))"
    unfolding a b by (simp add: llgr_fresh_def llgr_begun_def PeerCloseManager_new_def)
  from t a b n c d show ?thesis by blast
qed

subsection \<open>The close counter\<close>

lemma ProcessClosure_switch_close:
  "ProcessClosure_switch env s = Inr s1 \<Longrightarrow> close (stats s1) = close (stats s)"
  by (auto simp: ProcessClosure_switch_def MOVE_TO_STATE_def do_call_def
           split: State.splits if_splits)

lemma close_counter_mono:
  "\<forall>s'. CloseInternal env s = Inr s' \<longrightarrow> close (stats s) < close (stats s')"
  "\<forall>s'. ProcessClosure env s = Inr s' \<longrightarrow> close (stats s) \<le> close (stats s')"
  "\<forall>s'. MembershipRequestInternal env s = Inr s' \<longrightarrow> close (stats s) \<le> close (stats s')"
  "\<forall>r. MembershipRequestCallbackInternal env s = Inr r \<longrightarrow>
        close (stats s) \<le> close (stats (snd r))"
  "\<forall>s'. CloseComplete env s = Inr s' \<longrightarrow> close (stats s) \<le> close (stats s')"
proof (induct env s and env s and env s and env s and env s
       rule: CloseInternal_ProcessClosure_MembershipRequestInternal_MembershipRequestCallbackInternal_CloseComplete.induct)
  case (1 env s)
  show ?case
  proof (intro allI impI)
    fix s' assume r: "CloseInternal env s = Inr s'"
    let ?x = "s\<lparr>stats := (stats s)\<lparr>close := close (stats s) + 1\<rparr>\<rparr>"
    show "close (stats s) < close (stats s')"
    proof (cases "close_again s")
      case True
      with r show ?thesis by (auto simp: CloseInternal.simps)
    next
      case False
      then have nca: "\<not> close_again ?x" by simp
      show ?thesis
      proof (cases "state s")
        case NONE
        with r False have "ProcessClosure env ?x = Inr s'"
          by (simp add: CloseInternal.simps)
        with "1.hyps"(1) [OF refl nca] NONE show ?thesis by fastforce
      next
        case GR_TIMER
        with r False have "CloseComplete env
               (?x\<lparr>close_again := True,
                    stats := stats ?x\<lparr>nested := nested (stats ?x) + 1\<rparr>,
                    gr_elapsed := gr_elapsed ?x + GetElapsedTime env\<rparr>) = Inr s'"
          by (simp add: CloseInternal.simps)
        with "1.hyps"(2) [OF refl nca] GR_TIMER show ?thesis by fastforce
      next
        case LLGR_TIMER
        with r False have "CloseComplete env
               (?x\<lparr>close_again := True,
                    stats := stats ?x\<lparr>nested := nested (stats ?x) + 1\<rparr>,
                    llgr_elapsed := llgr_elapsed ?x + GetElapsedTime env\<rparr>) = Inr s'"
          by (simp add: CloseInternal.simps)
        with "1.hyps"(3) [OF refl nca] LLGR_TIMER show ?thesis by fastforce
      qed (use r False in \<open>auto simp: CloseInternal.simps\<close>)
    qed
  qed
next
  case (2 env s)
  show ?case
  proof (intro allI impI)
    fix s' assume r: "ProcessClosure env s = Inr s'"
    then obtain b where b: "ProcessClosure_switch env s = Inr b"
      and m: "MembershipRequestInternal env
                (if state b = DELETE then do_call CustomClose b else b) = Inr s'"
      by (auto simp: ProcessClosure.simps split: sum.splits)
    from "2.hyps" [OF b] m
    have "close (stats (if state b = DELETE then do_call CustomClose b else b))
            \<le> close (stats s')" by blast
    with ProcessClosure_switch_close [OF b] show "close (stats s) \<le> close (stats s')"
      by (simp add: do_call_def split: if_splits)
  qed
next
  case (3 env s)
  show ?case
  proof (intro allI impI)
    fix s' assume r: "MembershipRequestInternal env s = Inr s'"
    show "close (stats s) \<le> close (stats s')"
    proof (cases "membership_state s \<noteq> MEMBERSHIP_IN_USE \<and> CanUseMembershipManager env \<and>
                  (\<exists>mgr. membership_mgr env = Some mgr \<and> GetRegisteredRibs mgr = [])")
      case True
      then obtain mgr where mgr: "membership_mgr env = Some mgr" "GetRegisteredRibs mgr = []"
        by blast
      from True have c: "\<not> \<not> CanUseMembershipManager env" by simp
      from True have u: "membership_state s \<noteq> MEMBERSHIP_IN_USE" by simp
      from r True mgr obtain bb where
        "MembershipRequestCallbackInternal env (s\<lparr>membership_state := MEMBERSHIP_IN_USE\<rparr>)
           = Inr (bb, s')"
        by (auto simp: MembershipRequestInternal.simps split: sum.splits)
      with "3.hyps" [OF u c refl mgr] show ?thesis by fastforce
    next
      case False
      with r show ?thesis
        by (auto simp: MembershipRequestInternal.simps Let_def
                 split: if_splits option.splits
                 dest!: MembershipRequest_tables_only_calls)
    qed
  qed
next
  case (4 env s)
  show ?case
  proof (intro allI impI)
    fix r assume r: "MembershipRequestCallbackInternal env s = Inr r"
    let ?x = "s\<lparr>membership_state := MEMBERSHIP_NONE\<rparr>"
    show "close (stats s) \<le> close (stats (snd r))"
    proof (cases "state s \<noteq> DELETE \<and> close_again s \<and>
                  membership_state s = MEMBERSHIP_IN_USE \<and>
                  (\<exists>mgr. membership_mgr env = Some mgr \<and> \<not> IsPending mgr)")
      case True
      then obtain mgr where mgr: "membership_mgr env = Some mgr" "\<not> IsPending mgr" by blast
      have g: "\<not> \<not> (state s = STALE \<or> State_value LLGR_STALE \<noteq> 0 \<or> state s = SWEEP \<or>
                    state s = DELETE)" by simp
      from True have u: "\<not> membership_state s \<noteq> MEMBERSHIP_IN_USE" by simp
      from True have d: "state ?x \<noteq> DELETE" and ca: "close_again ?x" by simp_all
      from r True mgr obtain s2 where "CloseComplete env ?x = Inr s2" and "r = (True, s2)"
        by (auto simp: MembershipRequestCallbackInternal.simps split: sum.splits)
      with "4.hyps" [OF g u mgr refl d ca] show ?thesis by fastforce
    next
      case False
      with r show ?thesis
        by (auto simp: MembershipRequestCallbackInternal.simps MOVE_TO_STATE_def do_call_def
                       StartRestartTimer_def TriggerSweepStateActions_def Let_def
                 split: if_splits option.splits)
    qed
  qed
next
  case (5 env s)
  show ?case
  proof (intro allI impI)
    fix s' assume r: "CloseComplete env s = Inr s'"
    then obtain b where b: "MOVE_TO_STATE NONE s = Inr b"
      by (auto simp: CloseComplete.simps split: sum.splits)
    let ?x = "b\<lparr>stale_timer := Timer_Cancel (stale_timer b),
                  sweep_timer := Timer_Cancel (sweep_timer b),
                  families := {},
                  stats := stats b\<lparr>init := init (stats b) + 1\<rparr>\<rparr>"
    from b have cb: "close (stats b) = close (stats s)" "close_again b = close_again s"
      by (auto simp: MOVE_TO_STATE_def split: if_splits)
    show "close (stats s) \<le> close (stats s')"
    proof (cases "close_again s")
      case True
      then have ca: "close_again ?x" using cb by simp
      from r b True cb have "CloseInternal env (?x\<lparr>close_again := False\<rparr>) = Inr s'"
        by (simp add: CloseComplete.simps)
      with "5.hyps" [OF b refl ca] cb show ?thesis by fastforce
    next
      case False
      with r b cb show ?thesis by (auto simp: CloseComplete.simps)
    qed
  qed
qed

lemma walk_done_close_same:
  assumes "\<not> close_again s" and "MembershipRequestCallbackInternal env s = Inr r"
  shows "close (stats (snd r)) = close (stats s)"
  using assms
  by (auto simp: MembershipRequestCallbackInternal.simps MOVE_TO_STATE_def do_call_def
                 StartRestartTimer_def TriggerSweepStateActions_def Let_def
           split: if_splits option.splits)

lemma request_close_same:
  assumes "\<not> close_again s" and "MembershipRequestInternal env s = Inr s'"
  shows "close (stats s') = close (stats s)"
  using assms
  by (auto simp: MembershipRequestInternal.simps Let_def
           split: if_splits option.splits sum.splits
           dest!: MembershipRequest_tables_only_calls
           dest: walk_done_close_same [rotated])

lemma closure_close_same:
  assumes "\<not> close_again s" and "ProcessClosure env s = Inr s'"
  shows "close (stats s') = close (stats s)"
proof -
  from assms(2) obtain b where b: "ProcessClosure_switch env s = Inr b"
    and m: "MembershipRequestInternal env
              (if state b = DELETE then do_call CustomClose b else b) = Inr s'"
    by (auto simp: ProcessClosure.simps split: sum.splits)
  from b assms(1) have "\<not> close_again (if state b = DELETE then do_call CustomClose b else b)"
    by (auto simp: ProcessClosure_switch_def MOVE_TO_STATE_def do_call_def
             split: State.splits if_splits)
  from request_close_same [OF this m] ProcessClosure_switch_close [OF b]
  show ?thesis by (simp add: do_call_def split: if_splits)
qed


lemma CloseComplete_restart:
  assumes "close_again s" and "state s \<noteq> NONE"
  shows "CloseComplete env s =
     CloseInternal env
       (s\<lparr>state := NONE, stale_timer := [], sweep_timer := [], families := {},
          stats := (stats s)\<lparr>init := init (stats s) + 1\<rparr>, close_again := False\<rparr>)"
  using assms
  by (simp add: CloseComplete.simps MOVE_TO_STATE_def Timer_Cancel_def)

lemma CloseInternal_close_exact:
  assumes "CloseInternal env s = Inr s'"
  shows "close (stats s') = close (stats s) +
           (if \<not> close_again s \<and> (state s = GR_TIMER \<or> state s = LLGR_TIMER) then 2 else 1)"
proof (cases "close_again s")
  case True
  with assms show ?thesis by (auto simp: CloseInternal.simps)
next
  case False
  have none: "close (stats t') = close (stats t) + 1"
    if "CloseInternal env t = Inr t'" "\<not> close_again t" "state t = NONE" for t t'
  proof -
    from that have "ProcessClosure env (t\<lparr>stats := (stats t)\<lparr>close := close (stats t) + 1\<rparr>\<rparr>)
        = Inr t'" by (simp add: CloseInternal.simps)
    from closure_close_same [OF _ this] that show ?thesis by simp
  qed
  have timer: "close (stats s') = close (stats s) + 2"
    if st: "state s = GR_TIMER \<or> state s = LLGR_TIMER"
  proof -
    from assms False st obtain s2 where c: "CloseComplete env s2 = Inr s'"
        and s2: "close_again s2" "state s2 = state s" "close (stats s2) = close (stats s) + 1"
      by (subst (asm) CloseInternal.simps) (auto simp: Let_def)
    from s2 st have "state s2 \<noteq> NONE" by auto
    from c [unfolded CloseComplete_restart [OF s2(1) this]]
    have "close (stats s') =
          close (stats (s2\<lparr>state := NONE, stale_timer := [], sweep_timer := [], families := {},
            stats := (stats s2)\<lparr>init := init (stats s2) + 1\<rparr>, close_again := False\<rparr>)) + 1"
      by (rule none) simp_all
    with s2 show ?thesis by simp
  qed
  show ?thesis
  proof (cases "state s")
    case NONE
    with none [OF assms False] show ?thesis by simp
  next
    case GR_TIMER
    with timer False show ?thesis by simp
  next
    case LLGR_TIMER
    with timer False show ?thesis by simp
  qed (use assms False in \<open>auto simp: CloseInternal.simps\<close>)
qed


lemma handle_event_close:
  assumes "handle_event env ev s = Inr s'"
  shows "close (stats s) + external_closes [(env, ev)] \<le> close (stats s')"
proof (cases ev)
  case (EvClose ng)
  with assms have "CloseInternal env (s\<lparr>non_graceful := (non_graceful s \<or> ng)\<rparr>) = Inr s'"
    by (simp add: Close_def)
  with close_counter_mono(1) [of env "s\<lparr>non_graceful := (non_graceful s \<or> ng)\<rparr>"]
  have "close (stats s) < close (stats s')" by fastforce
  with EvClose show ?thesis by simp
next
  case (EvEorReceived f)
  with assms have "s' = ProcessEORMarkerReceived f s" by simp
  then have "close (stats s') = close (stats s)"
    by (simp add: ProcessEORMarkerReceived_def StartRestartTimer_def Let_def)
  with EvEorReceived show ?thesis by simp
next
  case EvRestartTimerFired
  show ?thesis
  proof (cases "state s = GR_TIMER \<or> state s = LLGR_TIMER")
    case True
    with assms EvRestartTimerFired have "ProcessClosure env s = Inr s'"
      by (cases "ProcessClosure env s") (simp_all add: RestartTimerCallback_def)
    with close_counter_mono(2) [of env s] EvRestartTimerFired show ?thesis by simp
  next
    case False
    with assms EvRestartTimerFired show ?thesis by (simp add: RestartTimerCallback_def)
  qed
next
  case EvSweepTimerFired
  with assms have "CloseComplete env (do_call GracefulRestartSweep s) = Inr s'"
    by (cases "CloseComplete env (do_call GracefulRestartSweep s)")
       (simp_all add: ProcessSweepStateActions_def split: if_splits)
  with close_counter_mono(5) [of env "do_call GracefulRestartSweep s"] EvSweepTimerFired
  show ?thesis by (simp add: do_call_def)
next
  case EvMembershipRequest
  with assms close_counter_mono(3) [of env s] show ?thesis
    by (simp add: MembershipRequest_def)
next
  case EvMembershipWalkDone
  with assms obtain r where "MembershipRequestCallbackInternal env s = Inr r" "snd r = s'"
    by (cases "MembershipRequestCallbackInternal env s")
       (simp_all add: MembershipRequestCallback_def)
  with EvMembershipWalkDone close_counter_mono(4) [of env s] show ?thesis
    by auto
qed

lemma run_events_close:
  "run_events evs s = Inr s' \<Longrightarrow> close (stats s) + external_closes evs \<le> close (stats s')"
proof (induction evs arbitrary: s)
  case Nil
  then show ?case by simp
next
  case (Cons p evs)
  obtain env ev where p: "p = (env, ev)" by (cases p)
  from Cons.prems p obtain s1 where h: "handle_event env ev s = Inr s1"
      and r: "run_events evs s1 = Inr s'"
    by (auto split: sum.splits)
  have "external_closes (p # evs) = external_closes [(env, ev)] + external_closes evs"
    using p by (cases ev) simp_all
  with handle_event_close [OF h] Cons.IH [OF r] show ?case by simp
qed

lemma two_closes_run:
  "run_events two_closes PeerCloseManager_new = Inr two_closes_result"
  by (simp add: two_closes_def two_closes_result_def Close_def
        CloseInternal.simps CloseComplete.simps ProcessClosure.simps
        MembershipRequestInternal.simps MembershipRequestCallbackInternal.simps
        ProcessClosure_switch_def
        env_gr_def mgr_empty_def PeerCloseManager_new_def
        MOVE_TO_STATE_def do_call_def StartRestartTimer_def Timer_Cancel_def Timer_Start_def
        restart_time_def word_sless_alt)

lemma Close_gr_wait_run:
  "Close env_gr False gr_wait = Inr gr_rearmed"
  by (simp add: gr_rearmed_def gr_wait_def Close_def
        CloseInternal.simps CloseComplete.simps ProcessClosure.simps
        MembershipRequestInternal.simps MembershipRequestCallbackInternal.simps
        ProcessClosure_switch_def
        env_gr_def mgr_empty_def PeerCloseManager_new_def
        MOVE_TO_STATE_def do_call_def StartRestartTimer_def Timer_Cancel_def Timer_Start_def
        restart_time_def word_sless_alt)

text \<open>
  C8 does not hold as it is stated. The \<open>close\<close> counter is not the number of external
  \<^verbatim>\<open>Close\<close> calls: two calls, the
  second arriving in \<open>GR_TIMER\<close>, leave the counter at 3, because \<^verbatim>\<open>CloseComplete\<close>
  re-enters \<^verbatim>\<open>CloseInternal\<close>, which counts again.
\<close>

theorem close_counter_counterexample:
  "run_events two_closes PeerCloseManager_new = Inr two_closes_result
   \<and> close (stats two_closes_result) = 3
   \<and> external_closes two_closes = 2"
  by (simp add: two_closes_run) (simp add: two_closes_def two_closes_result_def)

text \<open>
  C8, as the code has it. The counter counts the invocations of \<^verbatim>\<open>CloseInternal\<close>.
  An external \<^verbatim>\<open>Close\<close> that returns adds exactly 1, or exactly 2 when it arrives in
  \<open>GR_TIMER\<close> or \<open>LLGR_TIMER\<close> with \<open>close_again\<close> false (the restart through
  \<^verbatim>\<open>CloseComplete\<close> counts once more); no event lowers the counter. So after every run
  of events the counter is at least the number of external closes of the run.
\<close>

theorem close_counter_counts_CloseInternal:
  "(Close env ng s = Inr s' \<longrightarrow>
      close (stats s') = close (stats s) +
        (if \<not> close_again s \<and> (state s = GR_TIMER \<or> state s = LLGR_TIMER) then 2 else 1))
   \<and> (run_events evs s = Inr s' \<longrightarrow>
      close (stats s) + external_closes evs \<le> close (stats s'))"
proof (intro conjI impI)
  assume "Close env ng s = Inr s'"
  then have "CloseInternal env (s\<lparr>non_graceful := (non_graceful s \<or> ng)\<rparr>) = Inr s'"
    by (simp add: Close_def)
  from CloseInternal_close_exact [OF this]
  show "close (stats s') = close (stats s) +
        (if \<not> close_again s \<and> (state s = GR_TIMER \<or> state s = LLGR_TIMER) then 2 else 1)"
    by simp
next
  assume "run_events evs s = Inr s'"
  then show "close (stats s) + external_closes evs \<le> close (stats s')"
    by (rule run_events_close)
qed

theorem close_counter_counts_CloseInternal_witness:
  "close (stats gr_rearmed) = close (stats gr_wait) + 2
   \<and> close (stats PeerCloseManager_new) + external_closes two_closes
     \<le> close (stats two_closes_result)"
proof -
  have "close (stats gr_rearmed) = close (stats gr_wait) +
        (if \<not> close_again gr_wait \<and> (state gr_wait = GR_TIMER \<or> state gr_wait = LLGR_TIMER)
         then 2 else 1)"
    by (rule close_counter_counts_CloseInternal [THEN conjunct1, rule_format,
              OF Close_gr_wait_run])
  then have a: "close (stats gr_rearmed) = close (stats gr_wait) + 2"
    by (simp add: gr_wait_def PeerCloseManager_new_def)
  have b: "close (stats PeerCloseManager_new) + external_closes two_closes
          \<le> close (stats two_closes_result)"
    by (rule close_counter_counts_CloseInternal [THEN conjunct2, rule_format,
              OF two_closes_run])
  from a b show ?thesis by blast
qed

subsection \<open>When the state is NONE\<close>

lemma invariant_new: "close_cycle_invariant PeerCloseManager_new"
  by (simp add: close_cycle_invariant_def PeerCloseManager_new_def)

lemma invariant_walk_done_unlatched:
  assumes "\<not> close_again s" and "close_cycle_invariant s"
    and "MembershipRequestCallbackInternal env s = Inr r"
  shows "close_cycle_invariant (snd r)"
  using assms
  by (auto simp: MembershipRequestCallbackInternal.simps MOVE_TO_STATE_def do_call_def
                 StartRestartTimer_def TriggerSweepStateActions_def Let_def
                 close_cycle_invariant_def
           split: if_splits option.splits)

lemma invariant_calls:
  "close_cycle_invariant (s\<lparr>calls := cs\<rparr>) = close_cycle_invariant s"
  by (simp add: close_cycle_invariant_def)

lemma invariant_membership_state:
  "close_cycle_invariant (s\<lparr>membership_state := m\<rparr>) = close_cycle_invariant s"
  by (simp add: close_cycle_invariant_def)

lemma invariant_request_unlatched:
  assumes "\<not> close_again s" and "close_cycle_invariant s"
    and "MembershipRequestInternal env s = Inr s'"
  shows "close_cycle_invariant s'"
proof (cases "membership_state s \<noteq> MEMBERSHIP_IN_USE \<and> CanUseMembershipManager env \<and>
              (\<exists>mgr. membership_mgr env = Some mgr \<and> GetRegisteredRibs mgr = [])")
  case True
  then obtain mgr where mgr: "membership_mgr env = Some mgr" "GetRegisteredRibs mgr = []"
    by blast
  let ?x = "s\<lparr>membership_state := MEMBERSHIP_IN_USE\<rparr>"
  from assms(3) True mgr obtain r where
    r: "MembershipRequestCallbackInternal env ?x = Inr r" "snd r = s'"
    by (cases "MembershipRequestCallbackInternal env ?x")
       (auto simp: MembershipRequestInternal.simps)
  have "\<not> close_again ?x" "close_cycle_invariant ?x"
    using assms(1,2) by (simp_all add: invariant_membership_state)
  from invariant_walk_done_unlatched [OF this r(1)] r(2) show ?thesis by simp
next
  case False
  with assms(2,3) show ?thesis
    by (auto simp: MembershipRequestInternal.simps Let_def invariant_membership_state
                   invariant_calls
             split: if_splits option.splits
             dest!: MembershipRequest_tables_only_calls)
qed

lemma invariant_closure_from_NONE:
  assumes "\<not> close_again s" and "state s = NONE" and "ProcessClosure env s = Inr s'"
  shows "close_cycle_invariant s'"
proof -
  from assms(3) obtain b where b: "ProcessClosure_switch env s = Inr b"
    and m: "MembershipRequestInternal env
              (if state b = DELETE then do_call CustomClose b else b) = Inr s'"
    by (auto simp: ProcessClosure.simps split: sum.splits)
  let ?x = "if state b = DELETE then do_call CustomClose b else b"
  from b assms(1,2) have "\<not> close_again ?x" "close_cycle_invariant ?x"
    by (auto simp: ProcessClosure_switch_def MOVE_TO_STATE_def do_call_def
                   close_cycle_invariant_def
             split: if_splits)
  from invariant_request_unlatched [OF this m] show ?thesis .
qed

lemma invariant_closure_from_timer:
  assumes "close_cycle_invariant s" and "state s = GR_TIMER \<or> state s = LLGR_TIMER"
    and "ProcessClosure env s = Inr s'"
  shows "close_cycle_invariant s'"
proof -
  from assms(3) obtain b where b: "ProcessClosure_switch env s = Inr b"
    and m: "MembershipRequestInternal env
              (if state b = DELETE then do_call CustomClose b else b) = Inr s'"
    by (auto simp: ProcessClosure.simps split: sum.splits)
  let ?x = "if state b = DELETE then do_call CustomClose b else b"
  from assms(1,2) have flags: "\<not> close_again s" "\<not> non_graceful s"
    by (auto simp: close_cycle_invariant_def)
  have shape: "b = s\<lparr>state := SWEEP, gr_elapsed := 0, llgr_elapsed := 0,
                      stats := (stats s)\<lparr>sweep := sweep (stats s) + 1\<rparr>\<rparr>
      \<or> b = s\<lparr>state := LLGR_STALE,
                 stats := (stats s)\<lparr>llgr_stale := llgr_stale (stats s) + 1\<rparr>\<rparr>
      \<or> b = s\<lparr>state := DELETE, stats := (stats s)\<lparr>deletes := deletes (stats s) + 1\<rparr>\<rparr>"
    using assms(2)
  proof
    assume "state s = GR_TIMER"
    with b show ?thesis
      by (simp add: ProcessClosure_switch_def MOVE_TO_STATE_def split: if_splits)
  next
    assume "state s = LLGR_TIMER"
    with b show ?thesis
      by (simp add: ProcessClosure_switch_def MOVE_TO_STATE_def split: if_splits)
  qed
  from shape flags have "\<not> close_again ?x" "close_cycle_invariant ?x"
    by (auto simp: do_call_def close_cycle_invariant_def)
  from invariant_request_unlatched [OF this m] show ?thesis .
qed

lemma invariant_CloseInternal_from_NONE:
  assumes "\<not> close_again s" and "state s = NONE" and "CloseInternal env s = Inr s'"
  shows "close_cycle_invariant s'"
proof -
  let ?x = "s\<lparr>stats := (stats s)\<lparr>close := close (stats s) + 1\<rparr>\<rparr>"
  from assms have "ProcessClosure env ?x = Inr s'"
    by (simp add: CloseInternal.simps)
  moreover have "\<not> close_again ?x" "state ?x = NONE" using assms by simp_all
  ultimately show ?thesis using invariant_closure_from_NONE by blast
qed

lemma invariant_CloseComplete_latched:
  assumes "close_again s" and "state s \<noteq> NONE" and "CloseComplete env s = Inr s'"
  shows "close_cycle_invariant s'"
proof -
  let ?x = "s\<lparr>state := NONE, stale_timer := [], sweep_timer := [], families := {},
          stats := (stats s)\<lparr>init := init (stats s) + 1\<rparr>, close_again := False\<rparr>"
  from assms(3) have "CloseInternal env ?x = Inr s'"
    by (simp add: CloseComplete_restart [OF assms(1,2)])
  moreover have "\<not> close_again ?x" "state ?x = NONE" by simp_all
  ultimately show ?thesis using invariant_CloseInternal_from_NONE by blast
qed


lemma invariant_walk_done:
  assumes "close_cycle_invariant s" and "MembershipRequestCallbackInternal env s = Inr r"
  shows "close_cycle_invariant (snd r)"
proof (cases "close_again s")
  case False
  from invariant_walk_done_unlatched [OF False assms] show ?thesis .
next
  case True
  with assms(1) have st: "state s \<noteq> NONE" by (auto simp: close_cycle_invariant_def)
  let ?x = "s\<lparr>membership_state := MEMBERSHIP_NONE\<rparr>"
  show ?thesis
  proof (cases "state s = DELETE")
    case d: True
    with assms(2) show ?thesis
      by (auto simp: MembershipRequestCallbackInternal.simps MOVE_TO_STATE_def do_call_def
                     Let_def close_cycle_invariant_def
               split: if_splits option.splits)
  next
    case d: False
    show ?thesis
    proof (cases "\<exists>mgr. membership_mgr env = Some mgr \<and> \<not> IsPending mgr")
      case p: True
      with assms(2) True d obtain s2 where c: "CloseComplete env ?x = Inr s2"
          and r: "r = (True, s2)"
        by (cases "CloseComplete env ?x")
           (auto simp: MembershipRequestCallbackInternal.simps split: if_splits)
      have "close_again ?x" "state ?x \<noteq> NONE" using True st by simp_all
      from invariant_CloseComplete_latched [OF this c] r show ?thesis by simp
    next
      case p: False
      with assms show ?thesis
        by (auto simp: MembershipRequestCallbackInternal.simps
                 split: if_splits option.splits)
    qed
  qed
qed

lemma invariant_request:
  assumes "close_cycle_invariant s" and "MembershipRequestInternal env s = Inr s'"
  shows "close_cycle_invariant s'"
proof (cases "membership_state s \<noteq> MEMBERSHIP_IN_USE \<and> CanUseMembershipManager env \<and>
              (\<exists>mgr. membership_mgr env = Some mgr \<and> GetRegisteredRibs mgr = [])")
  case True
  then obtain mgr where mgr: "membership_mgr env = Some mgr" "GetRegisteredRibs mgr = []"
    by blast
  let ?x = "s\<lparr>membership_state := MEMBERSHIP_IN_USE\<rparr>"
  from assms(2) True mgr obtain r where
    r: "MembershipRequestCallbackInternal env ?x = Inr r" "snd r = s'"
    by (cases "MembershipRequestCallbackInternal env ?x")
       (auto simp: MembershipRequestInternal.simps)
  have "close_cycle_invariant ?x"
    using assms(1) by (simp add: invariant_membership_state)
  from invariant_walk_done [OF this r(1)] r(2) show ?thesis by simp
next
  case False
  with assms show ?thesis
    by (auto simp: MembershipRequestInternal.simps Let_def invariant_membership_state
                   invariant_calls
             split: if_splits option.splits
             dest!: MembershipRequest_tables_only_calls)
qed

lemma invariant_Close:
  assumes "close_cycle_invariant s" and "Close env ng s = Inr s'"
  shows "close_cycle_invariant s'"
proof -
  let ?s = "s\<lparr>non_graceful := (non_graceful s \<or> ng)\<rparr>"
  let ?x = "?s\<lparr>stats := (stats ?s)\<lparr>close := close (stats ?s) + 1\<rparr>\<rparr>"
  from assms(2) have ci: "CloseInternal env ?s = Inr s'" by (simp add: Close_def)
  show ?thesis
  proof (cases "close_again s")
    case True
    with ci have "s' = ?x" by (simp add: CloseInternal.simps)
    with assms(1) True show ?thesis by (auto simp: close_cycle_invariant_def)
  next
    case False
    show ?thesis
    proof (cases "state s")
      case NONE
      with False have "\<not> close_again ?s" "state ?s = NONE" by simp_all
      from invariant_CloseInternal_from_NONE [OF this ci] show ?thesis .
    next
      case GR_TIMER
      let ?y = "?x\<lparr>close_again := True,
                    stats := (stats ?x)\<lparr>nested := nested (stats ?x) + 1\<rparr>,
                    gr_elapsed := gr_elapsed ?x + GetElapsedTime env\<rparr>"
      from ci False GR_TIMER have c: "CloseComplete env ?y = Inr s'"
        by (simp add: CloseInternal.simps)
      have "close_again ?y" "state ?y \<noteq> NONE" using GR_TIMER by simp_all
      from invariant_CloseComplete_latched [OF this c] show ?thesis .
    next
      case LLGR_TIMER
      let ?y = "?x\<lparr>close_again := True,
                    stats := (stats ?x)\<lparr>nested := nested (stats ?x) + 1\<rparr>,
                    llgr_elapsed := llgr_elapsed ?x + GetElapsedTime env\<rparr>"
      from ci False LLGR_TIMER have c: "CloseComplete env ?y = Inr s'"
        by (simp add: CloseInternal.simps)
      have "close_again ?y" "state ?y \<noteq> NONE" using LLGR_TIMER by simp_all
      from invariant_CloseComplete_latched [OF this c] show ?thesis .
    next
      case STALE
      with ci False have "s' = ?x\<lparr>close_again := True,
                    stats := (stats ?x)\<lparr>nested := nested (stats ?x) + 1\<rparr>\<rparr>"
        by (simp add: CloseInternal.simps)
      with assms(1) STALE show ?thesis by (simp add: close_cycle_invariant_def)
    next
      case LLGR_STALE
      with ci False have "s' = ?x\<lparr>close_again := True,
                    stats := (stats ?x)\<lparr>nested := nested (stats ?x) + 1\<rparr>\<rparr>"
        by (simp add: CloseInternal.simps)
      with assms(1) LLGR_STALE show ?thesis by (simp add: close_cycle_invariant_def)
    next
      case SWEEP
      with ci False have "s' = ?x\<lparr>close_again := True,
                    stats := (stats ?x)\<lparr>nested := nested (stats ?x) + 1\<rparr>\<rparr>"
        by (simp add: CloseInternal.simps)
      with assms(1) SWEEP show ?thesis by (simp add: close_cycle_invariant_def)
    next
      case DELETE
      with ci False have "s' = ?x\<lparr>close_again := True,
                    stats := (stats ?x)\<lparr>nested := nested (stats ?x) + 1\<rparr>\<rparr>"
        by (simp add: CloseInternal.simps)
      with assms(1) DELETE show ?thesis by (simp add: close_cycle_invariant_def)
    qed
  qed
qed

lemma invariant_sweep:
  assumes "close_cycle_invariant s" and "ProcessSweepStateActions env s = Inr r"
  shows "close_cycle_invariant (snd r)"
proof -
  let ?x = "do_call GracefulRestartSweep s"
  from assms(2) have st: "state s = SWEEP"
    by (auto simp: ProcessSweepStateActions_def split: if_splits)
  with assms(2) obtain s2 where c: "CloseComplete env ?x = Inr s2" and r: "snd r = s2"
    by (cases "CloseComplete env ?x") (auto simp: ProcessSweepStateActions_def)
  show ?thesis
  proof (cases "close_again s")
    case True
    then have "close_again ?x" "state ?x \<noteq> NONE" using st by (simp_all add: do_call_def)
    from invariant_CloseComplete_latched [OF this c] r show ?thesis by simp
  next
    case False
    with c st have "s2 = ?x\<lparr>state := NONE, stale_timer := [], sweep_timer := [],
        families := {}, stats := (stats ?x)\<lparr>init := init (stats ?x) + 1\<rparr>\<rparr>"
      by (auto simp: CloseComplete.simps MOVE_TO_STATE_def do_call_def Timer_Cancel_def)
    with assms(1) st False r show ?thesis
      by (auto simp: close_cycle_invariant_def do_call_def)
  qed
qed

lemma invariant_restart_timer:
  assumes "close_cycle_invariant s" and "RestartTimerCallback env s = Inr r"
  shows "close_cycle_invariant (snd r)"
proof (cases "state s = GR_TIMER \<or> state s = LLGR_TIMER")
  case True
  with assms(2) obtain s2 where c: "ProcessClosure env s = Inr s2" and r: "snd r = s2"
    by (cases "ProcessClosure env s") (auto simp: RestartTimerCallback_def)
  from invariant_closure_from_timer [OF assms(1) True c] r show ?thesis by simp
next
  case False
  with assms show ?thesis by (auto simp: RestartTimerCallback_def)
qed

lemma invariant_eor:
  "close_cycle_invariant (ProcessEORMarkerReceived family s) = close_cycle_invariant s"
  by (simp add: ProcessEORMarkerReceived_def StartRestartTimer_def Let_def
                close_cycle_invariant_def)

lemma invariant_handle_event:
  assumes "close_cycle_invariant s" and "handle_event env ev s = Inr s'"
  shows "close_cycle_invariant s'"
proof (cases ev)
  case (EvClose ng)
  with assms invariant_Close show ?thesis by simp
next
  case (EvEorReceived f)
  with assms show ?thesis by (auto simp: invariant_eor)
next
  case EvRestartTimerFired
  with assms(2) obtain r where "RestartTimerCallback env s = Inr r" "snd r = s'"
    by (cases "RestartTimerCallback env s") simp_all
  with invariant_restart_timer [OF assms(1)] show ?thesis by blast
next
  case EvSweepTimerFired
  with assms(2) obtain r where "ProcessSweepStateActions env s = Inr r" "snd r = s'"
    by (cases "ProcessSweepStateActions env s") simp_all
  with invariant_sweep [OF assms(1)] show ?thesis by blast
next
  case EvMembershipRequest
  with assms invariant_request show ?thesis by (simp add: MembershipRequest_def)
next
  case EvMembershipWalkDone
  with assms(2) obtain r where "MembershipRequestCallbackInternal env s = Inr r" "snd r = s'"
    by (cases "MembershipRequestCallbackInternal env s")
       (simp_all add: MembershipRequestCallback_def)
  with invariant_walk_done [OF assms(1)] show ?thesis by blast
qed

lemma invariant_run_events:
  "close_cycle_invariant s \<Longrightarrow> run_events evs s = Inr s' \<Longrightarrow> close_cycle_invariant s'"
proof (induction evs arbitrary: s)
  case Nil
  then show ?case by simp
next
  case (Cons p evs)
  obtain env ev where p: "p = (env, ev)" by (cases p)
  from Cons.prems(2) p obtain s1 where h: "handle_event env ev s = Inr s1"
      and r: "run_events evs s1 = Inr s'"
    by (cases "handle_event env ev s") simp_all
  from Cons.IH [OF invariant_handle_event [OF Cons.prems(1) h] r] show ?case .
qed

text \<open>The three runs, evaluated.\<close>

lemma first_close_run:
  "run_events first_close PeerCloseManager_new = Inr first_close_result"
  by (simp add: first_close_def first_close_result_def run_unfold)

lemma hard_close_run:
  "run_events hard_close PeerCloseManager_new = Inr hard_close_result"
  by (simp add: hard_close_def hard_close_result_def env_not_graceful_def run_unfold)

lemma gr_expiry_run:
  "run_events gr_expiry PeerCloseManager_new = Inr gr_expiry_result"
  by (simp add: gr_expiry_def gr_expiry_result_def env_gone_def run_unfold)

text \<open>
  The families are not part of what \<open>NONE\<close> guarantees: \<^verbatim>\<open>CloseComplete\<close> clears
  them, the \<open>DELETE\<close> branch of the walk-done callback does not, so a restart timer
  that expires into \<open>DELETE\<close> leaves them set in \<open>NONE\<close>.
\<close>

lemma families_outlive_DELETE:
  "state gr_expiry_result = NONE \<and> families gr_expiry_result = {INET, INET6}"
  by (simp add: gr_expiry_result_def PeerCloseManager_new_def)

text \<open>
  C3 does not hold as it is stated. \<open>NONE\<close> is not the only state in which the flags,
  the elapsed times and the families have their initial values: right after a first graceful close they all have, and the
  state is \<open>STALE\<close>.
\<close>

theorem NONE_iff_reset_counterexample:
  "run_events first_close PeerCloseManager_new = Inr first_close_result
   \<and> state first_close_result = STALE
   \<and> close_again first_close_result = False
   \<and> non_graceful first_close_result = False
   \<and> gr_elapsed first_close_result = 0
   \<and> llgr_elapsed first_close_result = 0
   \<and> families first_close_result = {}"
  by (simp add: first_close_run) (simp add: first_close_result_def PeerCloseManager_new_def)

text \<open>
  C3, as the code has it. After every run of events from the initial manager, if the
  state is \<open>NONE\<close> then \<open>close_again\<close> and \<open>non_graceful\<close> are false and both elapsed
  times are 0. In particular the walk-done callback in \<open>DELETE\<close> moves to \<open>NONE\<close> with
  \<open>close_again\<close>, \<open>non_graceful\<close> and both elapsed times at their initial values.
\<close>

theorem NONE_implies_reset:
  "(run_events evs PeerCloseManager_new = Inr s \<and> state s = NONE \<longrightarrow>
      \<not> close_again s \<and> \<not> non_graceful s \<and> gr_elapsed s = 0 \<and> llgr_elapsed s = 0)
   \<and> (state t = DELETE \<and> membership_state t = MEMBERSHIP_IN_USE \<and>
       membership_mgr env = Some mgr \<and> \<not> IsPending mgr \<longrightarrow>
      (\<exists>t'. MembershipRequestCallback env t = Inr (True, t') \<and> state t' = NONE \<and>
            \<not> close_again t' \<and> \<not> non_graceful t' \<and> gr_elapsed t' = 0 \<and>
            llgr_elapsed t' = 0))"
proof (rule conjI; rule impI)
  assume a: "run_events evs PeerCloseManager_new = Inr s \<and> state s = NONE"
  then have "close_cycle_invariant s"
    using invariant_run_events [OF invariant_new] by blast
  with a show "\<not> close_again s \<and> \<not> non_graceful s \<and> gr_elapsed s = 0 \<and> llgr_elapsed s = 0"
    by (simp add: close_cycle_invariant_def)
next
  assume "state t = DELETE \<and> membership_state t = MEMBERSHIP_IN_USE \<and>
       membership_mgr env = Some mgr \<and> \<not> IsPending mgr"
  then show "\<exists>t'. MembershipRequestCallback env t = Inr (True, t') \<and> state t' = NONE \<and>
            \<not> close_again t' \<and> \<not> non_graceful t' \<and> gr_elapsed t' = 0 \<and>
            llgr_elapsed t' = 0"
    by (simp add: MembershipRequestCallback_def MembershipRequestCallbackInternal.simps
                  MOVE_TO_STATE_def do_call_def)
qed

theorem NONE_implies_reset_witness:
  "state hard_close_result = NONE
   \<and> close_again hard_close_result = False \<and> non_graceful hard_close_result = False
   \<and> gr_elapsed hard_close_result = 0 \<and> llgr_elapsed hard_close_result = 0
   \<and> (\<exists>t'. MembershipRequestCallback env_gr
               (PeerCloseManager_new\<lparr>state := DELETE, non_graceful := True,
                  close_again := True, gr_elapsed := 30000,
                  membership_state := MEMBERSHIP_IN_USE\<rparr>) = Inr (True, t') \<and>
             state t' = NONE \<and> \<not> close_again t' \<and> \<not> non_graceful t' \<and>
             gr_elapsed t' = 0 \<and> llgr_elapsed t' = 0)"
proof -
  let ?t = "PeerCloseManager_new\<lparr>state := DELETE, non_graceful := True,
                  close_again := True, gr_elapsed := 30000,
                  membership_state := MEMBERSHIP_IN_USE\<rparr>"
  have n: "state hard_close_result = NONE"
    by (simp add: hard_close_result_def PeerCloseManager_new_def)
  from NONE_implies_reset [where evs = hard_close and s = hard_close_result,
         THEN conjunct1, rule_format, OF conjI [OF hard_close_run n]]
  have a: "close_again hard_close_result = False \<and> non_graceful hard_close_result = False
      \<and> gr_elapsed hard_close_result = 0 \<and> llgr_elapsed hard_close_result = 0"
    by simp
  have h: "state ?t = DELETE \<and> membership_state ?t = MEMBERSHIP_IN_USE \<and>
       membership_mgr env_gr = Some mgr_empty \<and> \<not> IsPending mgr_empty"
    by (simp add: env_gr_def mgr_empty_def)
  note b = NONE_implies_reset [where t = "?t" and env = env_gr and mgr = mgr_empty,
         THEN conjunct2, rule_format, OF h]
  from n a b show ?thesis by blast
qed

end
